theory Spec2Isabelle
  imports Complex_Main "HOL-Library.Word"
begin

section \<open>Signal codec\<close>

text \<open>
  \<^verbatim>\<open>calc_checksum(data, for_received=False)\<close> of \<^verbatim>\<open>gravitrax_bridge.py\<close>. The argument is
  a \<^verbatim>\<open>bytes\<close> object or, in the notification handler, a list of Python integers; the
  arithmetic is on unbounded integers and \<^verbatim>\<open>%\<close> rounds towards minus infinity, as
  \<open>mod\<close> on \<open>int\<close> does. \<open>None\<close> is the Python \<^verbatim>\<open>None\<close> returned for a wrong length.
\<close>

definition calc_checksum :: "int list \<Rightarrow> bool \<Rightarrow> int option" where
  "calc_checksum data for_received =
     (if length data \<noteq> 7 then None
      else let checksum = (data ! 0 + data ! 1 + data ! 2 + data ! 3 + data ! 4) mod 256
           in if for_received then Some ((checksum + data ! 6 - 1) mod 256)
              else Some checksum)"


subsection \<open>The notification payload as a hexadecimal string\<close>

type_synonym byte = "8 word"

text \<open>
  The handler first renders the payload, a \<^verbatim>\<open>bytearray\<close>, as text:
  \<^verbatim>\<open>message = " ".join("{:02x}".format(x) for x in data)\<close>.
\<close>

definition hexdigit :: "nat \<Rightarrow> char" where
  "hexdigit n = ''0123456789abcdef'' ! n"

definition format_02x :: "byte \<Rightarrow> string" where
  "format_02x x = [hexdigit (unat x div 16), hexdigit (unat x mod 16)]"

fun join_sp :: "string list \<Rightarrow> string" where
  "join_sp [] = []"
| "join_sp [s] = s"
| "join_sp (s # t # ts) = s @ CHR '' '' # join_sp (t # ts)"

definition message_of :: "byte list \<Rightarrow> string" where
  "message_of data = join_sp (map format_02x data)"

subsection \<open>The regular expression\<close>

text \<open>
  \<^verbatim>\<open>re.finditer(r"13(\s[0-9a-fA-F]{2}){6}", message)\<close>. The pattern has a fixed length of
  20 characters and no alternative, so a match attempt at a position is a test of the
  next 20 characters. \<^verbatim>\<open>finditer\<close> tries the positions from left to right and resumes
  behind a match. \<open>is_space\<close> is \<^verbatim>\<open>\s\<close> on the characters below 256; the text of a
  payload holds blanks and hexadecimal digits only.
\<close>

definition is_space :: "char \<Rightarrow> bool" where
  "is_space c =
     (let n = (of_char c :: nat)
      in (9 \<le> n \<and> n \<le> 13) \<or> (28 \<le> n \<and> n \<le> 32) \<or> n = 133 \<or> n = 160)"

definition hexval :: "char \<Rightarrow> int option" where
  "hexval c =
     (let n = (of_char c :: nat) in
      if 48 \<le> n \<and> n \<le> 57 then Some (int n - 48)
      else if 97 \<le> n \<and> n \<le> 102 then Some (int n - 87)
      else if 65 \<le> n \<and> n \<le> 70 then Some (int n - 55)
      else None)"

definition is_hex :: "char \<Rightarrow> bool" where
  "is_hex c = (hexval c \<noteq> None)"

fun match_groups :: "nat \<Rightarrow> string \<Rightarrow> bool" where
  "match_groups 0 s = True"
| "match_groups (Suc n) (a # b # c # s) = (is_space a \<and> is_hex b \<and> is_hex c \<and> match_groups n s)"
| "match_groups (Suc n) s = False"

fun match_signal :: "string \<Rightarrow> bool" where
  "match_signal (a # b # s) = (a = CHR ''1'' \<and> b = CHR ''3'' \<and> match_groups 6 s)"
| "match_signal s = False"

fun finditer :: "string \<Rightarrow> string list" where
  "finditer [] = []"
| "finditer (c # cs) =
     (if match_signal (c # cs) then take 20 (c # cs) # finditer (drop 19 cs)
      else finditer cs)"

subsection \<open>Decoding a matched signal\<close>

text \<open>
  \<^verbatim>\<open>int(recv_signal[i:j], base=16)\<close>. The model reads strings of hexadecimal digits, the
  only ones the regular expression lets through; on any other string it answers
  \<open>None\<close>, which the handler below turns into a \<^verbatim>\<open>ValueError\<close>.
\<close>

fun hex_acc :: "int \<Rightarrow> string \<Rightarrow> int option" where
  "hex_acc acc [] = Some acc"
| "hex_acc acc (c # cs) =
     (case hexval c of None \<Rightarrow> None | Some d \<Rightarrow> hex_acc (16 * acc + d) cs)"

definition int_base16 :: "string \<Rightarrow> int option" where
  "int_base16 s = (if s = [] then None else hex_acc 0 s)"

definition slice :: "'a list \<Rightarrow> nat \<Rightarrow> nat \<Rightarrow> 'a list" where
  "slice s i j = take (j - i) (drop i s)"

fun those_ints :: "int option list \<Rightarrow> int list option" where
  "those_ints [] = Some []"
| "those_ints (None # xs) = None"
| "those_ints (Some x # xs) = (case those_ints xs of None \<Rightarrow> None | Some ys \<Rightarrow> Some (x # ys))"

definition decode_signal :: "string \<Rightarrow> int list option" where
  "decode_signal recv_signal =
     those_ints
       [int_base16 (slice recv_signal 0 2), int_base16 (slice recv_signal 3 5),
        int_base16 (slice recv_signal 6 8), int_base16 (slice recv_signal 9 11),
        int_base16 (slice recv_signal 12 14), int_base16 (slice recv_signal 15 17),
        int_base16 (slice recv_signal 18 20)]"

text \<open>
  The frame scan in the words of the specification: the non-overlapping 7-byte
  candidates that begin with header byte 19, taken from left to right over the bytes.
\<close>

fun scanFrames :: "byte list \<Rightarrow> byte list list" where
  "scanFrames [] = []"
| "scanFrames (x # xs) =
     (if x = 19 \<and> 6 \<le> length xs then take 7 (x # xs) # scanFrames (drop 6 xs)
      else scanFrames xs)"

text \<open>
  The text of a payload behind its first byte, one blank and two digits for each byte:
  \<open>message_of (x # xs) = format_02x x @ tailstr xs\<close>. It is the form the proofs about
  \<open>finditer\<close> recurse on.
\<close>

fun tailstr :: "byte list \<Rightarrow> string" where
  "tailstr [] = []"
| "tailstr (y # ys) = CHR '' '' # format_02x y @ tailstr ys"

section \<open>The Bridge object and its environment\<close>

text \<open>
  Python exceptions that the library raises, catches or lets through.
  \<^verbatim>\<open>BleakDeviceNotFoundError\<close> is a subclass of \<^verbatim>\<open>BleakError\<close>; \<open>is_BleakError\<close> is
  the test an \<^verbatim>\<open>except BleakError\<close> clause makes. \<^verbatim>\<open>TimeoutError\<close> is the builtin, which
  \<^verbatim>\<open>asyncio.wait_for\<close> raises (Python 3.11 and later).
\<close>

datatype exc =
    TypeError | ValueError | AttributeError | IndexError | KeyError | RuntimeError
  | OSError | TimeoutError | CancelledError | BleakError | BleakDeviceNotFoundError

definition is_BleakError :: "exc \<Rightarrow> bool" where
  "is_BleakError e = (e = BleakError \<or> e = BleakDeviceNotFoundError)"

text \<open>
  The keyword arguments of the notification callback; \<open>None\<close> is Python's \<^verbatim>\<open>None\<close>.
  The keyword \<^verbatim>\<open>Id\<close> is the field \<open>MsgId\<close>.
\<close>

record noti_kwargs =
  Header :: "int option"
  Stone :: "int option"
  Status :: "int option"
  Reserved :: "int option"
  MsgId :: "int option"
  Checksum :: "int option"
  Color :: "int option"
  Data :: "byte list"

text \<open>
  What a call does that the outside can see, in order of occurrence. \<open>Log\<close> carries
  the fixed part of the text handed to \<^verbatim>\<open>log_print\<close>; \<open>DcCallback u t\<close> is a call of the
  disconnect callback with \<^verbatim>\<open>user_disconnected=u, by_timeout=t\<close>; \<open>Write\<close> is a call of
  \<^verbatim>\<open>client.write_gatt_char\<close>, \<open>Sleep\<close> one of \<^verbatim>\<open>asyncio.sleep\<close>; \<open>FindDevice by_name ident\<close>
  is a scan of \<^verbatim>\<open>BleakScanner\<close>, \<open>ClientConnect addr\<close> a call of \<^verbatim>\<open>client.connect\<close> on a
  new client for the device at \<open>addr\<close>.
\<close>

datatype event =
    Log string
  | NotiCallback noti_kwargs
  | DcCallback bool bool
  | Write "byte list"
  | Sleep rat
  | FindDevice bool string
  | ClientConnect string
  | ReadChar
  | StartNotify

text \<open>
  A user callback is modelled by what it does to the library: it returns (\<open>None\<close>) or
  raises. What a callback does to the Bridge through its first argument is outside the
  model.
\<close>

type_synonym noti_fun = "noti_kwargs \<Rightarrow> exc option"
type_synonym dc_fun = "bool \<Rightarrow> bool \<Rightarrow> exc option"

record ble_device =
  dev_name :: "string option"
  dev_address :: string

datatype bleak_client = BleakClient ble_device

text \<open>
  The fields of \<^verbatim>\<open>class Bridge\<close> the operations below use, under their source names
  (the private \<^verbatim>\<open>__x\<close> as \<open>x\<close>), and three fields that are not in the source: \<open>trace\<close>,
  the events so far; \<open>n_writes\<close> and \<open>n_draws\<close>, the number of calls made so far to
  \<^verbatim>\<open>write_gatt_char\<close> and to \<^verbatim>\<open>random.randrange\<close>, which index the environment's answers.
\<close>

record bridge =
  client :: "bleak_client option"
  name :: "string option"
  firmware :: "int option"
  hardware :: "int option"
  dc_callback :: "dc_fun option"
  try_reconnect :: bool
  restart_notifications :: bool
  noti_callback :: "noti_fun option"
  address :: "string option"
  next_send_id :: int
  user_disconnected :: bool
  last_notifications :: "string list"
  trace :: "event list"
  n_writes :: nat
  n_draws :: nat

text \<open>\<^verbatim>\<open>Bridge.__init__\<close>.\<close>

definition init_bridge :: bridge where
  "init_bridge =
     \<lparr>client = None, name = None, firmware = None, hardware = None, dc_callback = None,
      try_reconnect = False, restart_notifications = True, noti_callback = None,
      address = None, next_send_id = 0, user_disconnected = False,
      last_notifications = [], trace = [], n_writes = 0, n_draws = 0\<rparr>"

definition emit :: "event \<Rightarrow> bridge \<Rightarrow> bridge" where
  "emit e b = b\<lparr>trace := trace b @ [e]\<rparr>"

text \<open>
  The answers of the outside world: the raw value behind the n-th \<^verbatim>\<open>randrange\<close> call,
  the outcome of the n-th \<^verbatim>\<open>write_gatt_char\<close> call (\<open>None\<close>: it returned), and the
  outcomes of the scan, of \<^verbatim>\<open>client.connect\<close>, of \<^verbatim>\<open>read_gatt_char\<close> and of
  \<^verbatim>\<open>start_notify\<close> during one call of \<^verbatim>\<open>connect\<close>.
\<close>

datatype scan_outcome = Found ble_device | NotFound | ScanRaises exc

record env =
  rand :: "nat \<Rightarrow> nat"
  write_gatt_char :: "nat \<Rightarrow> exc option"
  find_device :: scan_outcome
  client_connect :: "exc option"
  read_gatt_char :: "exc + byte list"
  start_notify :: "exc option"

section \<open>Inbound dispatch\<close>

text \<open>
  \<^verbatim>\<open>await self.noti_callback(self, ...)\<close>: calling \<^verbatim>\<open>None\<close> is a \<^verbatim>\<open>TypeError\<close>.
\<close>

definition call_noti :: "noti_kwargs \<Rightarrow> bridge \<Rightarrow> exc option \<times> bridge" where
  "call_noti kw b =
     (case noti_callback b of
        None \<Rightarrow> (Some TypeError, b)
      | Some cb \<Rightarrow> (cb kw, emit (NotiCallback kw) b))"

text \<open>
  \<^verbatim>\<open>while len(self.__last_notifications) > 12: self.__last_notifications.pop(0)\<close>
\<close>

function pop_excess :: "string list \<Rightarrow> string list" where
  "pop_excess xs = (if length xs > 12 then pop_excess (tl xs) else xs)"
  by pat_completeness auto
termination
  by (relation "measure length") auto

text \<open>
  The duplicate filter of the handler's loop (lines 445 to 449): whether the signal is
  passed on, and the window afterwards.
\<close>

definition accept :: "string \<Rightarrow> string list \<Rightarrow> bool \<times> string list" where
  "accept recv_signal window =
     (if recv_signal \<in> set window then (False, window)
      else (True, pop_excess (window @ [recv_signal])))"

definition structured_kwargs :: "int list \<Rightarrow> byte list \<Rightarrow> noti_kwargs" where
  "structured_kwargs signal data =
     \<lparr>Header = Some (signal ! 0), Stone = Some (signal ! 1), Status = Some (signal ! 2),
      Reserved = Some (signal ! 3), MsgId = Some (signal ! 4), Checksum = Some (signal ! 5),
      Color = Some (signal ! 6), Data = data\<rparr>"

definition unstructured_kwargs :: "byte list \<Rightarrow> noti_kwargs" where
  "unstructured_kwargs data =
     \<lparr>Header = None, Stone = None, Status = None, Reserved = None, MsgId = None,
      Checksum = None, Color = None, Data = data\<rparr>"

text \<open>
  The loop over the matched signals. The first component of the result is the exception
  that leaves the loop, if any; \<^verbatim>\<open>except TypeError\<close> is the only handler around the call.
\<close>

fun noti_loop :: "byte list \<Rightarrow> string list \<Rightarrow> bridge \<Rightarrow> exc option \<times> bridge" where
  "noti_loop data [] b = (None, b)"
| "noti_loop data (recv_signal # rest) b =
     (case accept recv_signal (last_notifications b) of
        (False, _) \<Rightarrow> noti_loop data rest b
      | (True, window) \<Rightarrow>
          let b1 = b\<lparr>last_notifications := window\<rparr> in
          (case decode_signal recv_signal of
             None \<Rightarrow> (Some ValueError, b1)
           | Some signal \<Rightarrow>
               let b2 = (if Some (signal ! 5) \<noteq> calc_checksum signal True
                         then emit (Log ''Incoming Notification was discarded because the Checksum was incorrect'') b1
                         else b1)
               in (case call_noti (structured_kwargs signal data) b2 of
                     (None, b3) \<Rightarrow> noti_loop data rest b3
                   | (Some TypeError, b3) \<Rightarrow>
                       noti_loop data rest (emit (Log ''Failed to call notification callback'') b3)
                   | (Some e, b3) \<Rightarrow> (Some e, b3))))"

text \<open>\<^verbatim>\<open>Bridge.__notification_handler(characteristic, data)\<close>.\<close>

definition notification_handler :: "byte list \<Rightarrow> bridge \<Rightarrow> exc option \<times> bridge" where
  "notification_handler data b =
     (let message = message_of data;
          recv_signals = finditer message
      in if length recv_signals = 0 then call_noti (unstructured_kwargs data) b
         else noti_loop data recv_signals b)"

section \<open>Sender\<close>

text \<open>
  \<^verbatim>\<open>random.randrange(lo, hi)\<close>, from the raw value the environment holds for this draw.
\<close>

definition randrange :: "int \<Rightarrow> int \<Rightarrow> env \<Rightarrow> bridge \<Rightarrow> int \<times> bridge" where
  "randrange lo hi e b =
     (lo + int (rand e (n_draws b)) mod (hi - lo), b\<lparr>n_draws := Suc (n_draws b)\<rparr>)"

text \<open>
  \<^verbatim>\<open>bytes([...])\<close>: a \<^verbatim>\<open>ValueError\<close> (\<open>None\<close>) unless every element is in \<^verbatim>\<open>range(0, 256)\<close>.
\<close>

definition bytes_of :: "int list \<Rightarrow> byte list option" where
  "bytes_of xs =
     (if list_all (\<lambda>x. 0 \<le> x \<and> x < 256) xs then Some (map word_of_int xs) else None)"

text \<open>
  \<^verbatim>\<open>add_checksum(data, for_received=False)\<close>: \<^verbatim>\<open>None\<close> for a wrong length; otherwise
  \<^verbatim>\<open>bytes([...])\<close> of the frame with byte 5 replaced by the checksum, which is a
  \<^verbatim>\<open>ValueError\<close> when an element is outside \<^verbatim>\<open>range(0, 256)\<close>.
\<close>

definition add_checksum :: "int list \<Rightarrow> bool \<Rightarrow> exc + byte list option" where
  "add_checksum data for_received =
     (if length data \<noteq> 7 then Inr None
      else case calc_checksum data for_received of
             None \<Rightarrow> Inr None
           | Some c \<Rightarrow>
               (case bytes_of [data ! 0, data ! 1, data ! 2, data ! 3, data ! 4, c, data ! 6] of
                  None \<Rightarrow> Inl ValueError
                | Some frame \<Rightarrow> Inr (Some frame)))"

text \<open>
  An \<^verbatim>\<open>error_event\<close> argument is \<open>Some flag\<close> for an \<^verbatim>\<open>asyncio.Event\<close> and \<open>None\<close> for
  anything else; \<open>set_event\<close> is the guarded \<^verbatim>\<open>error_event.set()\<close>.
\<close>

definition set_event :: "bool option \<Rightarrow> bool option" where
  "set_event error_event = (case error_event of None \<Rightarrow> None | Some _ \<Rightarrow> Some True)"

text \<open>
  The loop of \<^verbatim>\<open>send_bytes\<close>: \<^verbatim>\<open>for _ in range(resends)\<close>, a write and a sleep. With no
  client, \<^verbatim>\<open>self.client.write_gatt_char\<close> is an \<^verbatim>\<open>AttributeError\<close>. The first exception
  ends the loop.
\<close>

fun write_loop :: "env \<Rightarrow> byte list \<Rightarrow> nat \<Rightarrow> rat \<Rightarrow> bridge \<Rightarrow> exc option \<times> bridge" where
  "write_loop e data 0 resend_gap b = (None, b)"
| "write_loop e data (Suc n) resend_gap b =
     (case client b of
        None \<Rightarrow> (Some AttributeError, b)
      | Some c \<Rightarrow>
          let b1 = emit (Write data) (b\<lparr>n_writes := Suc (n_writes b)\<rparr>) in
          (case write_gatt_char e (n_writes b) of
             Some ex \<Rightarrow> (Some ex, b1)
           | None \<Rightarrow> write_loop e data n resend_gap (emit (Sleep resend_gap) b1)))"

text \<open>
  \<^verbatim>\<open>Bridge.send_bytes\<close>. The result is the exception that leaves the call, if any, and
  the error event afterwards.
\<close>

definition send_bytes ::
  "env \<Rightarrow> byte list \<Rightarrow> int \<Rightarrow> rat \<Rightarrow> bool option \<Rightarrow> bridge \<Rightarrow> (exc option \<times> bool option) \<times> bridge"
where
  "send_bytes e data resends resend_gap error_event b =
     (case write_loop e data (nat resends) resend_gap b of
        (None, b1) \<Rightarrow> ((None, error_event), b1)
      | (Some ex, b1) \<Rightarrow>
          if ex = TypeError \<or> is_BleakError ex
          then ((None, set_event error_event), emit (Log ''Error sending Data:'') b1)
          else if ex = AttributeError
          then ((None, set_event error_event),
                emit (Log ''Error sending Data: BleakClient Object was not initialized'') b1)
          else ((Some ex, error_event), b1))"

text \<open>
  The arguments of \<^verbatim>\<open>send_signal\<close> (without \<^verbatim>\<open>uuid\<close> and \<^verbatim>\<open>error_event\<close>).
\<close>

record signal_args =
  status :: int
  color_channel :: int
  resends :: int
  resend_gap :: rat
  random_id :: bool
  header :: int
  stone :: int

text \<open>
  The part of \<^verbatim>\<open>send_signal\<close> between acquiring and releasing the send lock (lines 581 to
  587): the message id of this call, and the counter advanced. There is no \<^verbatim>\<open>await\<close>
  between the two lock operations, so the part runs as one step.
\<close>

definition next_message_id :: "env \<Rightarrow> bool \<Rightarrow> bridge \<Rightarrow> int \<times> bridge" where
  "next_message_id e rid b =
     (let (message_id, b1) = (if rid then randrange 0 255 e b else (next_send_id b, b))
      in (message_id, b1\<lparr>next_send_id := (next_send_id b1 + 1) mod 256\<rparr>))"

text \<open>\<^verbatim>\<open>Bridge.send_signal\<close>.\<close>

definition send_signal ::
  "env \<Rightarrow> signal_args \<Rightarrow> bool option \<Rightarrow> bridge \<Rightarrow> (exc option \<times> bool option) \<times> bridge"
where
  "send_signal e a error_event b =
     (let (reserved, b1) = randrange 0 255 e b;
          (message_id, b2) = next_message_id e (random_id a) b1;
          checksum = (header a + stone a + status a + reserved + message_id) mod 256
      in case bytes_of [header a, stone a, status a, reserved, message_id, checksum,
                        color_channel a] of
           None \<Rightarrow> ((Some ValueError, error_event), b2)
         | Some frame \<Rightarrow> send_bytes e frame (resends a) (resend_gap a) error_event b2)"

text \<open>
  The loop of \<^verbatim>\<open>send_periodic\<close>, \<^verbatim>\<open>for i in range(count)\<close>: \<open>i\<close> is the loop variable, the
  next argument the number of iterations left, \<open>ev\<close> the flag of the local
  \<^verbatim>\<open>error_event\<close>.
\<close>

fun periodic_loop ::
  "env \<Rightarrow> signal_args \<Rightarrow> rat \<Rightarrow> bool \<Rightarrow> nat \<Rightarrow> nat \<Rightarrow> bool \<Rightarrow> bridge \<Rightarrow> exc option \<times> bridge"
where
  "periodic_loop e a gap stop_on_failure i 0 ev b = (None, b)"
| "periodic_loop e a gap stop_on_failure i (Suc n) ev b =
     (if stop_on_failure \<and> ev then (None, b)
      else let b1 = (if gap > 0 \<and> i > 0 then emit (Sleep gap) b else b) in
        (case send_signal e a (Some ev) b1 of
           ((Some ex, ev'), b2) \<Rightarrow> (Some ex, b2)
         | ((None, ev'), b2) \<Rightarrow>
             periodic_loop e a gap stop_on_failure (Suc i) n
               (case ev' of None \<Rightarrow> ev | Some f \<Rightarrow> f) b2))"

text \<open>
  \<^verbatim>\<open>Bridge.send_periodic\<close>; \<^verbatim>\<open>send_signal\<close> gets the defaults \<^verbatim>\<open>random_id=False\<close> and
  \<^verbatim>\<open>header=MSG_DEFAULT_HEADER\<close>, which is 19.
\<close>

definition send_periodic ::
  "env \<Rightarrow> int \<Rightarrow> int \<Rightarrow> int \<Rightarrow> rat \<Rightarrow> int \<Rightarrow> rat \<Rightarrow> int \<Rightarrow> bool \<Rightarrow> bridge \<Rightarrow> exc option \<times> bridge"
where
  "send_periodic e sts col count gap rs rgap stn stop_on_failure b =
     periodic_loop e
       \<lparr>status = sts, color_channel = col, resends = rs, resend_gap = rgap,
        random_id = False, header = 19, stone = stn\<rparr>
       gap stop_on_failure 0 (nat count) False b"

text \<open>
  A sequence of \<^verbatim>\<open>send_signal\<close> calls on one Bridge, each with the default
  \<^verbatim>\<open>error_event=None\<close>: the message ids the calls assign, in order, and the state
  afterwards. \<open>message_id_of\<close> is the value of the local \<^verbatim>\<open>message_id\<close> of a call made in
  state \<open>b\<close>.
\<close>

definition message_id_of :: "env \<Rightarrow> signal_args \<Rightarrow> bridge \<Rightarrow> int" where
  "message_id_of e a b = fst (next_message_id e (random_id a) (snd (randrange 0 255 e b)))"

fun run_sends :: "env \<Rightarrow> signal_args list \<Rightarrow> bridge \<Rightarrow> int list \<times> bridge" where
  "run_sends e [] b = ([], b)"
| "run_sends e (a # as) b =
     (let (ids, b') = run_sends e as (snd (send_signal e a None b))
      in (message_id_of e a b # ids, b'))"

section \<open>Session: connect, disconnect dispatch, reconnect\<close>

text \<open>
  An argument of the annotated type, or a value on which the type check at the head of
  \<^verbatim>\<open>connect\<close> raises \<^verbatim>\<open>TypeError\<close>: for \<^verbatim>\<open>dc_callback\<close> a truthy object that is not
  callable, for \<^verbatim>\<open>name_or_addr\<close> anything but a \<^verbatim>\<open>str\<close>, for \<^verbatim>\<open>timeout\<close> anything but a
  number.
\<close>

datatype 'a arg = Arg 'a | WrongType

text \<open>
  \<^verbatim>\<open>Bridge.__read_chraceristic(characteristic, error_prefix)\<close>: the bytes read, or
  \<^verbatim>\<open>None\<close> after a logged \<^verbatim>\<open>AttributeError\<close> or \<^verbatim>\<open>BleakError\<close>.
\<close>

definition read_chraceristic ::
  "env \<Rightarrow> string \<Rightarrow> bridge \<Rightarrow> (exc + byte list option) \<times> bridge"
where
  "read_chraceristic e error_prefix b =
     (case client b of
        None \<Rightarrow> (Inr None, emit (Log (error_prefix @ ''BleakClient Object was not initialized'')) b)
      | Some c \<Rightarrow>
          let b1 = emit ReadChar b in
          (case read_gatt_char e of
             Inr data \<Rightarrow> (Inr (Some data), b1)
           | Inl ex \<Rightarrow>
               if ex = AttributeError
               then (Inr None, emit (Log (error_prefix @ ''BleakClient Object was not initialized'')) b1)
               else if is_BleakError ex then (Inr None, emit (Log error_prefix) b1)
               else (Inl ex, b1)))"

text \<open>
  \<^verbatim>\<open>Bridge.request_bridge_info()\<close>. An empty answer is falsy; \<^verbatim>\<open>data[1]\<close> and \<^verbatim>\<open>data[2]\<close>
  raise \<^verbatim>\<open>IndexError\<close> on a short answer, the second after the firmware field is set.
\<close>

definition request_bridge_info :: "env \<Rightarrow> bridge \<Rightarrow> (exc + (int \<times> int) option) \<times> bridge" where
  "request_bridge_info e b =
     (case read_chraceristic e ''Error Requesting Bridge Information: '' b of
        (Inl ex, b1) \<Rightarrow> (Inl ex, b1)
      | (Inr None, b1) \<Rightarrow> (Inr None, b1)
      | (Inr (Some data), b1) \<Rightarrow>
          if data = [] then (Inr None, b1)
          else if length data < 2
          then (Inr None, emit (Log ''Error Requesting Bridge Information: (IndexError)'') b1)
          else let b2 = b1\<lparr>firmware := Some (uint (data ! 1))\<rparr> in
            if length data < 3
            then (Inr None, emit (Log ''Error Requesting Bridge Information: (IndexError)'') b2)
            else (Inr (Some (uint (data ! 1), uint (data ! 2))),
                  emit (Log ''Firmware Version, Hardware Version'')
                    (b2\<lparr>hardware := Some (uint (data ! 2))\<rparr>)))"

text \<open>
  \<^verbatim>\<open>Bridge.connect(name_or_addr, by_name, timeout, dc_callback, try_reconnect,
  restart_notifications)\<close>. The result is the exception that leaves the call, or the value
  returned: \<^verbatim>\<open>True\<close>, \<^verbatim>\<open>False\<close>, or \<^verbatim>\<open>None\<close> from the bare \<^verbatim>\<open>return\<close> after a
  \<^verbatim>\<open>TimeoutError\<close> of \<^verbatim>\<open>client.connect\<close>. The MTU request made on Linux is not modelled.
\<close>

definition connect ::
  "env \<Rightarrow> string arg \<Rightarrow> bool \<Rightarrow> rat arg \<Rightarrow> dc_fun option arg \<Rightarrow> bool \<Rightarrow> bool \<Rightarrow> bridge
     \<Rightarrow> (exc + bool option) \<times> bridge"
where
  "connect e name_or_addr by_name timeout dc_cb try_rec restart b =
     (let b1 = b\<lparr>try_reconnect := try_rec, restart_notifications := restart\<rparr> in
      case dc_cb of WrongType \<Rightarrow> (Inl TypeError, b1) | Arg cb \<Rightarrow>
      (case name_or_addr of WrongType \<Rightarrow> (Inl TypeError, b1) | Arg ident \<Rightarrow>
      (case timeout of WrongType \<Rightarrow> (Inl TypeError, b1) | Arg t \<Rightarrow>
      (let b2 = emit (FindDevice by_name ident) (b1\<lparr>dc_callback := cb\<rparr>) in
       case find_device e of
         ScanRaises ex \<Rightarrow> (Inl ex, b2)
       | NotFound \<Rightarrow> (Inr (Some False), emit (Log ''No Bridge found to connect to'') b2)
       | Found device \<Rightarrow>
           let b3 = emit (ClientConnect (dev_address device))
                      (emit (Log ''Connecting to'') (b2\<lparr>client := Some (BleakClient device)\<rparr>))
           in (case client_connect e of
                 Some ex \<Rightarrow>
                   if ex = TimeoutError then (Inr None, emit (Log ''Failed to connect to'') b3)
                   else if ex = BleakDeviceNotFoundError \<or> ex = CancelledError
                   then (Inr (Some False), b3)
                   else (Inl ex, b3)
               | None \<Rightarrow>
                   let b4 = emit (Log ''Connected to bridge'')
                              (b3\<lparr>user_disconnected := False, name := dev_name device,
                                  address := Some (dev_address device)\<rparr>)
                   in (case request_bridge_info e b4 of
                         (Inl ex, b5) \<Rightarrow> (Inl ex, b5)
                       | (Inr info, b5) \<Rightarrow> (Inr (Some True), b5)))))))"

text \<open>
  The guarded call of the disconnect callback, as it stands in \<^verbatim>\<open>disconnect\<close>,
  \<^verbatim>\<open>__disconnect_callback\<close> and \<^verbatim>\<open>__reconnect\<close>:
  \<^verbatim>\<open>try: if self.dc_callback: self.dc_callback(self, user_disconnected=u, by_timeout=t)\<close>
  \<^verbatim>\<open>except TypeError as exc: log_print(...)\<close>.
\<close>

definition call_dc :: "bool \<Rightarrow> bool \<Rightarrow> bridge \<Rightarrow> exc option \<times> bridge" where
  "call_dc u t b =
     (case dc_callback b of
        None \<Rightarrow> (None, b)
      | Some f \<Rightarrow>
          let b1 = emit (DcCallback u t) b in
          (case f u t of
             None \<Rightarrow> (None, b1)
           | Some ex \<Rightarrow>
               if ex = TypeError
               then (None, emit (Log ''Failed to call Disconnect Callback'') b1)
               else (Some ex, b1)))"

text \<open>
  \<^verbatim>\<open>Bridge.__disconnect_callback(client)\<close>, which the transport calls when the connection
  ends. The value \<open>Inr (Some addr)\<close> says that the task \<^verbatim>\<open>__reconnect(addr)\<close> was created.
\<close>

definition disconnect_callback :: "bleak_client \<Rightarrow> bridge \<Rightarrow> (exc + string option) \<times> bridge" where
  "disconnect_callback cl b =
     (let b1 = emit (Log ''Bridge disconnected'') b in
      case call_dc (user_disconnected b1) False b1 of
        (Some ex, b2) \<Rightarrow> (Inl ex, b2)
      | (None, b2) \<Rightarrow>
          if \<not> user_disconnected b2 \<and> try_reconnect b2
          then (case cl of BleakClient device \<Rightarrow>
                  (Inr (Some (dev_address device)), emit (Log ''Trying to reconnect'') b2))
          else (Inr None, b2))"

text \<open>\<^verbatim>\<open>Bridge.notification_enable(callback)\<close> with the default \<^verbatim>\<open>uuid\<close>.\<close>

definition notification_enable :: "env \<Rightarrow> noti_fun \<Rightarrow> bridge \<Rightarrow> (exc + bool) \<times> bridge" where
  "notification_enable e callback b =
     (case client b of
        None \<Rightarrow> (Inr False,
                 emit (Log ''Enabling Notifications failed: BleakClient Object was not initialized'') b)
      | Some c \<Rightarrow>
          let b1 = emit StartNotify b in
          (case start_notify e of
             Some ex \<Rightarrow>
               if ex = AttributeError
               then (Inr False,
                     emit (Log ''Enabling Notifications failed: BleakClient Object was not initialized'') b1)
               else if is_BleakError ex
               then (Inr False, emit (Log ''Enabling Notifications failed'') b1)
               else (Inl ex, b1)
           | None \<Rightarrow>
               (Inr True, (emit (Log ''Notifications Enabled'') b1)\<lparr>noti_callback := Some callback\<rparr>)))"

text \<open>
  \<^verbatim>\<open>Bridge.__reconnect(address)\<close>:
  \<^verbatim>\<open>await asyncio.wait_for(self.connect(address, by_name=False, try_reconnect=True), timeout=15)\<close>.
  \<^verbatim>\<open>connect\<close> gets its defaults \<^verbatim>\<open>timeout=25\<close>, \<^verbatim>\<open>dc_callback=None\<close> and
  \<^verbatim>\<open>restart_notifications=True\<close>. When the 15 seconds pass, \<^verbatim>\<open>wait_for\<close> cancels
  \<^verbatim>\<open>connect\<close> at the \<^verbatim>\<open>await\<close> where it stands, which raises \<^verbatim>\<open>CancelledError\<close> there
  (in the environment: the scan or the read raises it); when that exception leaves
  \<^verbatim>\<open>connect\<close>, \<^verbatim>\<open>wait_for\<close> raises \<^verbatim>\<open>TimeoutError\<close>. The result is the exception that
  leaves \<^verbatim>\<open>__reconnect\<close>, if any.
\<close>

definition reconnect :: "env \<Rightarrow> string \<Rightarrow> bridge \<Rightarrow> exc option \<times> bridge" where
  "reconnect e addr b =
     (case connect e (Arg addr) False (Arg 25) (Arg None) True True b of
        (Inl ex, b1) \<Rightarrow>
          if ex = CancelledError \<or> ex = TimeoutError
          then call_dc False True
                 (emit (Log ''Could not reconnect to Bridge: Reconnect timed out'') b1)
          else (Some ex, b1)
      | (Inr r, b1) \<Rightarrow>
          let b2 = emit (Log ''Reconnected to Bridge'') b1 in
          (case noti_callback b2 of
             None \<Rightarrow> (None, b2)
           | Some cb \<Rightarrow>
               if restart_notifications b2
               then (case notification_enable e cb b2 of
                       (Inl ex, b3) \<Rightarrow> (Some ex, b3)
                     | (Inr ok, b3) \<Rightarrow> (None, b3))
               else (None, b2)))"

text \<open>
  A connection lost: the transport calls \<^verbatim>\<open>__disconnect_callback\<close>, and the event loop
  then runs the task \<^verbatim>\<open>__reconnect\<close> if one was created.
\<close>

definition connection_lost :: "env \<Rightarrow> bleak_client \<Rightarrow> bridge \<Rightarrow> exc option \<times> bridge" where
  "connection_lost e cl b =
     (case disconnect_callback cl b of
        (Inl ex, b1) \<Rightarrow> (Some ex, b1)
      | (Inr None, b1) \<Rightarrow> (None, b1)
      | (Inr (Some addr), b1) \<Rightarrow> reconnect e addr b1)"

section \<open>Concurrent senders\<close>

text \<open>
  Several \<^verbatim>\<open>send_signal\<close> coroutines running on one event loop against one Bridge. A
  coroutine is cut into the statements of lines 580 to 589, and the scheduler may switch
  to another coroutine between any two of them; asyncio switches only at an \<^verbatim>\<open>await\<close>,
  so every execution of the event loop is one of the schedules considered here.

  The program counter names the line that runs next and holds the locals bound so far
  (\<^verbatim>\<open>reserved\<close>, \<^verbatim>\<open>message_id\<close>, and inside \<^verbatim>\<open>send_bytes\<close> the frame and the number of
  writes left). \<open>Returned\<close> holds the exception that left the call, if any.
\<close>

datatype pc =
    L580 | L581 int | L582 int | L586 int int | L587 int int | L588 int int
  | L589 "byte list" nat | Returned "exc option"

record task =
  t_args :: signal_args
  t_event :: "bool option"
  t_pc :: pc

text \<open>
  The Bridge, the flag of \<^verbatim>\<open>self.__send_lock\<close>, and the coroutines. \<open>assigned\<close> is the
  history of lines 582 to 585: the pair of the coroutine and the value it bound to
  \<^verbatim>\<open>message_id\<close>, in the order in which the bindings happened.
\<close>

record system =
  shared :: bridge
  send_lock :: bool
  assigned :: "(nat \<times> int) list"
  tasks :: "task list"

definition set_pc :: "nat \<Rightarrow> pc \<Rightarrow> system \<Rightarrow> system" where
  "set_pc i p s = s\<lparr>tasks := (tasks s)[i := (tasks s ! i)\<lparr>t_pc := p\<rparr>]\<rparr>"

text \<open>The \<^verbatim>\<open>except\<close> clauses of \<^verbatim>\<open>send_bytes\<close>, for coroutine \<open>i\<close>.\<close>

definition finish :: "nat \<Rightarrow> exc \<Rightarrow> system \<Rightarrow> system" where
  "finish i ex s =
     (let t = tasks s ! i in
      if ex = TypeError \<or> is_BleakError ex
      then s\<lparr>shared := emit (Log ''Error sending Data:'') (shared s),
             tasks := (tasks s)[i := t\<lparr>t_event := set_event (t_event t), t_pc := Returned None\<rparr>]\<rparr>
      else if ex = AttributeError
      then s\<lparr>shared := emit (Log ''Error sending Data: BleakClient Object was not initialized'') (shared s),
             tasks := (tasks s)[i := t\<lparr>t_event := set_event (t_event t), t_pc := Returned None\<rparr>]\<rparr>
      else set_pc i (Returned (Some ex)) s)"

text \<open>
  One statement of coroutine \<open>i\<close>. At line 581 a coroutine that finds the lock taken
  stays where it is; a coroutine that has returned, and an index that names no
  coroutine, change nothing. Line 589 is one iteration of the loop of \<^verbatim>\<open>send_bytes\<close>.
\<close>

definition step :: "env \<Rightarrow> nat \<Rightarrow> system \<Rightarrow> system" where
  "step e i s =
     (if length (tasks s) \<le> i then s
      else let t = tasks s ! i; a = t_args t; b = shared s in
        case t_pc t of
          L580 \<Rightarrow>
            (case randrange 0 255 e b of
               (reserved, b1) \<Rightarrow> set_pc i (L581 reserved) (s\<lparr>shared := b1\<rparr>))
        | L581 reserved \<Rightarrow>
            if send_lock s then s
            else set_pc i (L582 reserved) (s\<lparr>send_lock := True\<rparr>)
        | L582 reserved \<Rightarrow>
            (case (if random_id a then randrange 0 255 e b else (next_send_id b, b)) of
               (message_id, b1) \<Rightarrow>
                 set_pc i (L586 reserved message_id)
                   (s\<lparr>shared := b1, assigned := assigned s @ [(i, message_id)]\<rparr>))
        | L586 reserved message_id \<Rightarrow>
            set_pc i (L587 reserved message_id)
              (s\<lparr>shared := b\<lparr>next_send_id := (next_send_id b + 1) mod 256\<rparr>\<rparr>)
        | L587 reserved message_id \<Rightarrow>
            set_pc i (L588 reserved message_id) (s\<lparr>send_lock := False\<rparr>)
        | L588 reserved message_id \<Rightarrow>
            (let checksum = (header a + stone a + status a + reserved + message_id) mod 256 in
             case bytes_of [header a, stone a, status a, reserved, message_id, checksum,
                            color_channel a] of
               None \<Rightarrow> set_pc i (Returned (Some ValueError)) s
             | Some frame \<Rightarrow> set_pc i (L589 frame (nat (resends a))) s)
        | L589 frame n \<Rightarrow>
            (case n of
               0 \<Rightarrow> set_pc i (Returned None) s
             | Suc m \<Rightarrow>
                 (case client b of
                    None \<Rightarrow> finish i AttributeError s
                  | Some c \<Rightarrow>
                      let b1 = emit (Write frame) (b\<lparr>n_writes := Suc (n_writes b)\<rparr>) in
                      (case write_gatt_char e (n_writes b) of
                         Some ex \<Rightarrow> finish i ex (s\<lparr>shared := b1\<rparr>)
                       | None \<Rightarrow>
                           set_pc i (L589 frame m)
                             (s\<lparr>shared := emit (Sleep (resend_gap a)) b1\<rparr>))))
        | Returned r \<Rightarrow> s)"

text \<open>
  A schedule is the list of the coroutines that run, one statement each; \<open>launch\<close> is
  the state in which the calls \<^verbatim>\<open>send_signal(**a, error_event=ev)\<close> have been created
  and none has run.
\<close>

fun run :: "env \<Rightarrow> nat list \<Rightarrow> system \<Rightarrow> system" where
  "run e [] s = s"
| "run e (i # sched) s = run e sched (step e i s)"

definition new_task :: "signal_args \<times> bool option \<Rightarrow> task" where
  "new_task c = \<lparr>t_args = fst c, t_event = snd c, t_pc = L580\<rparr>"

definition launch :: "bridge \<Rightarrow> (signal_args \<times> bool option) list \<Rightarrow> system" where
  "launch b cs = \<lparr>shared = b, send_lock = False, assigned = [], tasks = map new_task cs\<rparr>"










section \<open>Observations used in the statements\<close>

definition is_frame :: "byte list \<Rightarrow> bool" where
  "is_frame f = (length f = 7 \<and> hd f = 19)"

fun calls :: "event list \<Rightarrow> noti_kwargs list" where
  "calls [] = []"
| "calls (NotiCallback kw # es) = kw # calls es"
| "calls (e # es) = calls es"

definition after_call :: "string \<Rightarrow> int list \<Rightarrow> byte list \<Rightarrow> bridge \<Rightarrow> bridge" where
  "after_call s sig data b =
     emit (NotiCallback (structured_kwargs sig data))
       (let b1 = b\<lparr>last_notifications := pop_excess (last_notifications b @ [s])\<rparr>
        in if Some (sig ! 5) \<noteq> calc_checksum sig True
           then emit (Log ''Incoming Notification was discarded because the Checksum was incorrect'') b1
           else b1)"

text \<open>Test data: thirteen distinct frames, and a Bridge with a callback that returns.\<close>

definition thirteen_frames :: "byte list list" where
  "thirteen_frames =
     map (\<lambda>k. [19, 5, 0, 0, k, 24 + k, 1]) [0, 1, 2, 3, 4, 5, 6, 7, 8, 9, 10, 11, 12]"

definition listener :: bridge where
  "listener = init_bridge\<lparr>noti_callback := Some (\<lambda>kw. None)\<rparr>"

text \<open>Test data: an environment in which every write succeeds, and a signal.\<close>

definition quiet_env :: env where
  "quiet_env =
     \<lparr>rand = (\<lambda>n. 7), write_gatt_char = (\<lambda>n. None), find_device = NotFound,
      client_connect = None, read_gatt_char = Inr [], start_notify = None\<rparr>"

definition red_signal :: signal_args where
  "red_signal =
     \<lparr>status = 0, color_channel = 1, resends = 12, resend_gap = 0, random_id = False,
      header = 19, stone = 6\<rparr>"

text \<open>
  Arguments that \<^verbatim>\<open>bytes\<close> accepts, and the exceptions \<^verbatim>\<open>send_bytes\<close> catches.
\<close>

definition valid_args :: "signal_args \<Rightarrow> bool" where
  "valid_args a = list_all (\<lambda>x. 0 \<le> x \<and> x < 256) [header a, stone a, status a, color_channel a]"

definition caught_on_send :: "exc \<Rightarrow> bool" where
  "caught_on_send ex = (ex = TypeError \<or> is_BleakError ex \<or> ex = AttributeError)"

text \<open>
  Test data: a transport whose writes fail from the sixteenth on, and a connected Bridge.
\<close>

definition failing_env :: env where
  "failing_env = quiet_env\<lparr>write_gatt_char := (\<lambda>n. if n < 15 then None else Some BleakError)\<rparr>"

definition the_device :: ble_device where
  "the_device = \<lparr>dev_name = Some ''GravitraxConnect'', dev_address = ''C0:FF:EE:00:00:01''\<rparr>"

definition connected_bridge :: bridge where
  "connected_bridge =
     init_bridge\<lparr>client := Some (BleakClient the_device), name := dev_name the_device,
                 address := Some (dev_address the_device)\<rparr>"

text \<open>
  Test data: an environment in which the scan finds the device; callbacks that raise;
  environments in which a reconnect fails; a connected Bridge with a disconnect callback
  and \<^verbatim>\<open>try_reconnect\<close> set.
\<close>

definition found_env :: env where
  "found_env = quiet_env\<lparr>find_device := Found the_device, read_gatt_char := Inr [0, 1, 2]\<rparr>"

definition raising_listener :: bridge where
  "raising_listener = init_bridge\<lparr>noti_callback := Some (\<lambda>kw. Some ValueError),
                                  dc_callback := Some (\<lambda>u t. Some ValueError)\<rparr>"

definition typeerror_listener :: bridge where
  "typeerror_listener = init_bridge\<lparr>noti_callback := Some (\<lambda>kw. Some TypeError),
                                    dc_callback := Some (\<lambda>u t. Some TypeError)\<rparr>"

definition timeout_env :: env where
  "timeout_env = quiet_env\<lparr>find_device := ScanRaises CancelledError\<rparr>"

definition refused_env :: env where
  "refused_env = found_env\<lparr>client_connect := Some BleakDeviceNotFoundError\<rparr>"

definition watched_bridge :: bridge where
  "watched_bridge = connected_bridge\<lparr>dc_callback := Some (\<lambda>u t. None), try_reconnect := True\<rparr>"

text \<open>
  Inbound dispatch in the words of the specification: every candidate frame goes
  through the duplicate filter, and every frame that passes is handed to the callback
  with its fields as received. \<open>passed_frames\<close> are the frames that pass, in order;
  \<open>frame_events\<close> is what the delivery of one frame shows: the log line when the
  checksum byte is not the inbound checksum, the call, and the log line when the call
  raised \<^verbatim>\<open>TypeError\<close>; \<open>deliveries\<close> puts these in sequence and ends behind a call that
  raised any other exception. No checksum decides whether a frame is delivered.
\<close>

definition frame_events :: "noti_fun \<Rightarrow> byte list \<Rightarrow> byte list \<Rightarrow> event list" where
  "frame_events cb data f =
     (if calc_checksum (map uint f) True \<noteq> Some (uint (f ! 5))
      then [Log ''Incoming Notification was discarded because the Checksum was incorrect'']
      else [])
     @ [NotiCallback (structured_kwargs (map uint f) data)]
     @ (if cb (structured_kwargs (map uint f) data) = Some TypeError
        then [Log ''Failed to call notification callback''] else [])"

fun deliveries :: "noti_fun \<Rightarrow> byte list \<Rightarrow> string list \<Rightarrow> byte list list \<Rightarrow> event list" where
  "deliveries cb data w [] = []"
| "deliveries cb data w (f # fs) =
     (case accept (message_of f) w of
        (False, w') \<Rightarrow> deliveries cb data w fs
      | (True, w') \<Rightarrow>
          frame_events cb data f
          @ (if cb (structured_kwargs (map uint f) data) = None
                \<or> cb (structured_kwargs (map uint f) data) = Some TypeError
             then deliveries cb data w' fs else []))"

fun passed_frames :: "string list \<Rightarrow> byte list list \<Rightarrow> byte list list" where
  "passed_frames w [] = []"
| "passed_frames w (f # fs) =
     (case accept (message_of f) w of
        (False, w') \<Rightarrow> passed_frames w fs
      | (True, w') \<Rightarrow> f # passed_frames w' fs)"

text \<open>Test data: a payload of two noise bytes, a frame with a wrong checksum and a frame with the right one.\<close>

definition noisy_payload :: "byte list" where
  "noisy_payload = [1, 2, 19, 5, 0, 0, 0, 99, 1, 19, 5, 0, 0, 1, 25, 1]"




section \<open>Lemmas on the inbound path\<close>

lemma message_of_Cons: "message_of (x # xs) = format_02x x @ tailstr xs"
  unfolding message_of_def by (induction xs arbitrary: x) auto

lemma hex_table:
  "list_all (\<lambda>n. hexval (hexdigit n) = Some (int n) \<and> hexdigit n \<noteq> CHR '' '') [0..<16]"
  by (simp add: upt_rec hexval_def hexdigit_def)

lemma hexval_hexdigit:
  assumes "n < 16" shows "hexval (hexdigit n) = Some (int n)"
  using hex_table assms by (simp add: list_all_iff)

lemma is_hex_hexdigit: "n < 16 \<Longrightarrow> is_hex (hexdigit n)"
  by (simp add: is_hex_def hexval_hexdigit)

lemma hexdigit_eq_iff:
  assumes "n < 16" "m < 16" shows "hexdigit n = hexdigit m \<longleftrightarrow> n = m"
proof
  assume "hexdigit n = hexdigit m"
  then have "hexval (hexdigit n) = hexval (hexdigit m)" by simp
  then show "n = m" by (simp add: hexval_hexdigit assms)
qed simp

lemma hexdigit_1: "hexdigit 1 = CHR ''1''" by (simp add: hexdigit_def)
lemma hexdigit_3: "hexdigit 3 = CHR ''3''" by (simp add: hexdigit_def)

lemma hexdigit_not_space:
  assumes "n < 16" shows "hexdigit n \<noteq> CHR '' ''"
  using hex_table assms by (simp add: list_all_iff)

lemma is_space_sp: "is_space CHR '' ''" by (simp add: is_space_def)

lemma hi_lt: "unat (x::byte) div 16 < 16"
  using unsigned_less[of x, where 'a=nat] by (simp add: div_less_iff_less_mult)

lemma byte_19_iff: "(x::byte) = 19 \<longleftrightarrow> unat x div 16 = 1 \<and> unat x mod 16 = 3"
proof -
  have "x = 19 \<longleftrightarrow> unat x = 19" by (simp add: word_unat_eq_iff)
  also have "\<dots> \<longleftrightarrow> unat x div 16 = 1 \<and> unat x mod 16 = 3" by arith
  finally show ?thesis .
qed

lemma format_02x_13: "format_02x x = [CHR ''1'', CHR ''3''] \<longleftrightarrow> x = 19"
  using hexdigit_eq_iff[of "unat x div 16" 1] hexdigit_eq_iff[of "unat x mod 16" 3] hi_lt[of x]
  by (simp add: format_02x_def byte_19_iff hexdigit_1[symmetric] hexdigit_3[symmetric] del: One_nat_def)

lemma length_tailstr: "length (tailstr xs) = 3 * length xs"
  by (induction xs) (simp_all add: format_02x_def)

lemma take_tailstr: "take (3 * k) (tailstr xs) = tailstr (take k xs)"
proof (induction xs arbitrary: k)
  case Nil then show ?case by simp
next
  case (Cons y ys)
  show ?case
  proof (cases k)
    case 0 then show ?thesis by simp
  next
    case (Suc j)
    have e: "3 * k = Suc (Suc (Suc (3 * j)))" using Suc by simp
    show ?thesis unfolding e using Cons.IH[of j] Suc by (simp add: format_02x_def)
  qed
qed

lemma drop_tailstr: "drop (3 * k) (tailstr xs) = tailstr (drop k xs)"
proof (induction xs arbitrary: k)
  case Nil then show ?case by simp
next
  case (Cons y ys)
  show ?case
  proof (cases k)
    case 0 then show ?thesis by simp
  next
    case (Suc j)
    have e: "3 * k = Suc (Suc (Suc (3 * j)))" using Suc by simp
    show ?thesis unfolding e using Cons.IH[of j] Suc by (simp add: format_02x_def)
  qed
qed

lemma match_groups_tailstr: "match_groups n (tailstr xs) \<longleftrightarrow> n \<le> length xs"
proof (induction n arbitrary: xs)
  case 0 then show ?case by simp
next
  case (Suc n)
  show ?case
  proof (cases xs)
    case Nil then show ?thesis by simp
  next
    case (Cons y ys)
    then show ?thesis using Suc.IH[of ys]
      by (simp add: format_02x_def is_space_sp is_hex_hexdigit hi_lt)
  qed
qed

lemma match_signal_frame:
  "match_signal (format_02x x @ tailstr xs) \<longleftrightarrow> x = 19 \<and> 6 \<le> length xs"
proof -
  have "match_signal (format_02x x @ tailstr xs)
        \<longleftrightarrow> format_02x x = [CHR ''1'', CHR ''3''] \<and> match_groups 6 (tailstr xs)"
    by (auto simp: format_02x_def)
  then show ?thesis by (simp add: format_02x_13 match_groups_tailstr)
qed

lemma match_signal_tailstr: "\<not> match_signal (tailstr xs)"
  by (cases xs) (simp_all add: format_02x_def)

lemma match_signal_second: "\<not> match_signal (c # tailstr xs)"
  by (cases xs) (simp_all add: format_02x_def)

lemma finditer_tailstr_Cons:
  "finditer (tailstr (x # xs)) = finditer (format_02x x @ tailstr xs)"
  by (simp add: format_02x_def)

lemma finditer_match:
  "match_signal (a # b # t) \<Longrightarrow> finditer (a # b # t) = (a # b # take 18 t) # finditer (drop 18 t)"
  by simp

lemma finditer_no_match:
  assumes "\<not> match_signal (a # b # t)" "\<not> match_signal (b # t)"
  shows "finditer (a # b # t) = finditer t"
proof -
  have "finditer (a # b # t) = finditer (b # t)"
    using assms(1) by (simp only: finditer.simps if_False)
  also have "\<dots> = finditer t"
    using assms(2) by (simp only: finditer.simps if_False)
  finally show ?thesis .
qed

lemma finditer_frame_hit:
  assumes "x = 19 \<and> 6 \<le> length xs"
  shows "finditer (format_02x x @ tailstr xs)
         = (format_02x x @ tailstr (take 6 xs)) # finditer (tailstr (drop 6 xs))"
proof -
  obtain a b where ab: "format_02x x = [a, b]" by (simp add: format_02x_def)
  have t: "take 18 (tailstr xs) = tailstr (take 6 xs)" using take_tailstr[of 6 xs] by simp
  have d: "drop 18 (tailstr xs) = tailstr (drop 6 xs)" using drop_tailstr[of 6 xs] by simp
  have "match_signal (format_02x x @ tailstr xs)"
    using assms by (simp only: match_signal_frame)
  then have m: "match_signal (a # b # tailstr xs)" by (simp only: ab append_Cons append_Nil)
  have "finditer (a # b # tailstr xs) = (a # b # tailstr (take 6 xs)) # finditer (tailstr (drop 6 xs))"
    using finditer_match[OF m] by (simp only: t d)
  then show ?thesis by (simp only: ab append_Cons append_Nil)
qed

lemma finditer_frame_miss:
  assumes "\<not> (x = 19 \<and> 6 \<le> length xs)"
  shows "finditer (format_02x x @ tailstr xs) = finditer (tailstr xs)"
proof -
  obtain a b where ab: "format_02x x = [a, b]" by (simp add: format_02x_def)
  have "\<not> match_signal (format_02x x @ tailstr xs)"
    using assms unfolding match_signal_frame by simp
  then have m: "\<not> match_signal (a # b # tailstr xs)" unfolding ab by simp
  have "finditer (a # b # tailstr xs) = finditer (tailstr xs)"
    by (rule finditer_no_match[OF m match_signal_second])
  then show ?thesis by (simp only: ab append_Cons append_Nil)
qed

lemma finditer_tailstr: "finditer (tailstr xs) = map message_of (scanFrames xs)"
proof (induction xs rule: scanFrames.induct)
  case 1 then show ?case by simp
next
  case (2 x xs)
  show ?case
  proof (cases "x = 19 \<and> 6 \<le> length xs")
    case True
    have "finditer (tailstr (x # xs)) = (format_02x x @ tailstr (take 6 xs)) # finditer (tailstr (drop 6 xs))"
      by (simp only: finditer_tailstr_Cons finditer_frame_hit[OF True])
    also have "finditer (tailstr (drop 6 xs)) = map message_of (scanFrames (drop 6 xs))"
      by (rule 2(1)[OF True])
    also have "format_02x x @ tailstr (take 6 xs) = message_of (take 7 (x # xs))"
      by (simp add: message_of_Cons)
    finally have "finditer (tailstr (x # xs))
        = message_of (take 7 (x # xs)) # map message_of (scanFrames (drop 6 xs))" .
    moreover have "scanFrames (x # xs) = take 7 (x # xs) # scanFrames (drop 6 xs)"
      by (simp only: scanFrames.simps if_P[OF True])
    ultimately show ?thesis by (simp only: list.map)
  next
    case False
    have "finditer (tailstr (x # xs)) = finditer (tailstr xs)"
      by (simp only: finditer_tailstr_Cons finditer_frame_miss[OF False])
    also have "\<dots> = map message_of (scanFrames xs)" by (rule 2(2)[OF False])
    finally have "finditer (tailstr (x # xs)) = map message_of (scanFrames xs)" .
    moreover have "scanFrames (x # xs) = scanFrames xs"
      by (simp only: scanFrames.simps if_not_P[OF False])
    ultimately show ?thesis by simp
  qed
qed

lemma finditer_message_of: "finditer (message_of data) = map message_of (scanFrames data)"
proof (cases data)
  case Nil then show ?thesis by (simp add: message_of_def)
next
  case (Cons x xs)
  have "finditer (message_of (x # xs)) = finditer (tailstr (x # xs))"
    by (simp only: message_of_Cons finditer_tailstr_Cons)
  then show ?thesis using Cons finditer_tailstr[of "x # xs"] by simp
qed

subsection \<open>Decoding\<close>

lemma lo_lt: "unat (x::byte) mod 16 < 16" by simp

lemma int_base16_format: "int_base16 (format_02x x) = Some (uint x)"
proof -
  have "int (unat x div 16) * 16 + int (unat x mod 16) = int (unat x)"
    by (metis of_nat_add of_nat_mult of_nat_numeral div_mult_mod_eq)
  then show ?thesis
    by (simp add: int_base16_def format_02x_def hexval_hexdigit hi_lt lo_lt mult.commute)
qed

lemma message_of_7:
  "message_of [a, b, c, d, e, f, g] =
     format_02x a @ CHR '' '' # format_02x b @ CHR '' '' # format_02x c @ CHR '' '' # format_02x d
     @ CHR '' '' # format_02x e @ CHR '' '' # format_02x f @ CHR '' '' # format_02x g"
  by (simp add: message_of_def)

lemma slices_7:
  assumes "length p0 = 2" "length p1 = 2" "length p2 = 2" "length p3 = 2" "length p4 = 2"
    "length p5 = 2" "length p6 = 2"
  defines "s \<equiv> p0 @ CHR '' '' # p1 @ CHR '' '' # p2 @ CHR '' '' # p3 @ CHR '' '' # p4 @ CHR '' '' # p5 @ CHR '' '' # p6"
  shows "slice s 0 2 = p0" "slice s 3 5 = p1" "slice s 6 8 = p2" "slice s 9 11 = p3"
    "slice s 12 14 = p4" "slice s 15 17 = p5" "slice s 18 20 = p6"
  using assms by (auto simp: slice_def length_Suc_conv numeral_2_eq_2)

lemma length_format_02x: "length (format_02x x) = 2" by (simp add: format_02x_def)

lemma decode_message_of_7:
  "decode_signal (message_of [a, b, c, d, e, f, g])
     = Some [uint a, uint b, uint c, uint d, uint e, uint f, uint g]"
  unfolding decode_signal_def message_of_7
  by (simp add: slices_7[OF length_format_02x length_format_02x length_format_02x length_format_02x
        length_format_02x length_format_02x length_format_02x] int_base16_format)

lemma decode_message_of:
  assumes "length fr = 7" shows "decode_signal (message_of fr) = Some (map uint fr)"
proof -
  obtain a b c d e f g where "fr = [a, b, c, d, e, f, g]"
    using assms by (auto simp: length_Suc_conv numeral_eq_Suc)
  then show ?thesis by (simp only: decode_message_of_7) simp
qed

subsection \<open>Injectivity of the rendering\<close>

lemma format_02x_inject: "format_02x x = format_02x y \<Longrightarrow> x = y"
proof -
  assume "format_02x x = format_02x y"
  then have "int_base16 (format_02x x) = int_base16 (format_02x y)" by simp
  then show "x = y" by (simp add: int_base16_format word_uint_eq_iff)
qed

lemma tailstr_inject: "tailstr xs = tailstr ys \<Longrightarrow> xs = ys"
proof (induction xs arbitrary: ys)
  case Nil
  then show ?case by (cases ys) simp_all
next
  case (Cons x xs)
  then obtain y ys' where ys: "ys = y # ys'" by (cases ys) auto
  from Cons.prems have "format_02x x @ tailstr xs = format_02x y @ tailstr ys'"
    by (simp add: ys)
  then have "format_02x x = format_02x y \<and> tailstr xs = tailstr ys'"
    by (simp add: length_format_02x)
  then show ?case using Cons.IH[of ys'] format_02x_inject ys by blast
qed

lemma message_of_inject: "message_of xs = message_of ys \<Longrightarrow> xs = ys"
proof (cases xs)
  case Nil
  assume e: "message_of xs = message_of ys"
  show ?thesis
  proof (cases ys)
    case Nil then show ?thesis using \<open>xs = []\<close> by simp
  next
    case (Cons y ys')
    then show ?thesis using e \<open>xs = []\<close>
      by (simp add: message_of_Cons) (simp add: message_of_def format_02x_def)
  qed
next
  case (Cons x xs')
  assume e: "message_of xs = message_of ys"
  show ?thesis
  proof (cases ys)
    case Nil
    then show ?thesis using e Cons
      by (simp add: message_of_Cons) (simp add: message_of_def format_02x_def)
  next
    case (Cons y ys')
    from e have "format_02x x @ tailstr xs' = format_02x y @ tailstr ys'"
      using \<open>xs = x # xs'\<close> Cons by (simp add: message_of_Cons)
    then have "format_02x x = format_02x y \<and> tailstr xs' = tailstr ys'"
      by (simp add: length_format_02x)
    then show ?thesis using \<open>xs = x # xs'\<close> Cons format_02x_inject tailstr_inject by blast
  qed
qed

lemma message_of_mem: "message_of f \<in> set (map message_of fs) \<longleftrightarrow> f \<in> set fs"
  using message_of_inject by auto

subsection \<open>The window\<close>

declare pop_excess.simps [simp del]

lemma pop_excess_eq: "pop_excess xs = drop (length xs - 12) xs"
proof (induction xs rule: pop_excess.induct)
  case (1 xs)
  show ?case
  proof (cases "length xs > 12")
    case True
    then obtain y ys where xs: "xs = y # ys" by (cases xs) auto
    have "pop_excess xs = pop_excess (tl xs)" using True by (subst pop_excess.simps) simp
    also have "\<dots> = drop (length (tl xs) - 12) (tl xs)" by (rule 1[OF True])
    also have "\<dots> = drop (length xs - 12) xs"
    proof -
      obtain k where k: "length ys = 12 + k" using True xs by (auto simp: less_iff_Suc_add)
      show ?thesis by (simp add: xs k)
    qed
    finally show ?thesis .
  next
    case False
    then show ?thesis by (subst pop_excess.simps) simp
  qed
qed

lemma length_pop_excess: "length (pop_excess xs) \<le> 12"
  by (simp add: pop_excess_eq)

lemma pop_excess_short: "length xs \<le> 12 \<Longrightarrow> pop_excess xs = xs"
  by (simp add: pop_excess_eq)

lemma set_pop_excess: "set (pop_excess xs) \<subseteq> set xs"
  by (simp add: pop_excess_eq set_drop_subset)

lemma last_in_pop_excess: "s \<in> set (pop_excess (w @ [s]))"
  by (simp add: pop_excess_eq)

lemma pop_excess_append: "pop_excess (pop_excess xs @ ys) = pop_excess (xs @ ys)"
proof (cases "length xs \<le> 12")
  case True then show ?thesis by (simp add: pop_excess_short)
next
  case False
  then obtain k where k: "length xs = 12 + k" by (auto simp: not_le less_iff_Suc_add)
  show ?thesis by (simp add: pop_excess_eq k add.commute)
qed

subsection \<open>The scan over whole frames\<close>

lemma scanFrames_frames: "f \<in> set (scanFrames data) \<Longrightarrow> is_frame f"
proof (induction data rule: scanFrames.induct)
  case 1 then show ?case by simp
next
  case (2 x xs)
  then show ?case by (auto simp: is_frame_def split: if_splits)
qed

lemma scanFrames_frame_append:
  assumes "is_frame f" shows "scanFrames (f @ rest) = f # scanFrames rest"
proof -
  obtain a b c d e g h where f: "f = [a, b, c, d, e, g, h]"
    using assms by (auto simp: is_frame_def length_Suc_conv numeral_eq_Suc)
  then have "a = 19" using assms by (simp add: is_frame_def)
  then show ?thesis by (simp add: f)
qed

lemma scanFrames_concat: "list_all is_frame fs \<Longrightarrow> scanFrames (concat fs) = fs"
  by (induction fs) (simp_all add: scanFrames_frame_append)

subsection \<open>The loop\<close>

lemma calls_append: "calls (xs @ ys) = calls xs @ calls ys"
  by (induction xs rule: calls.induct) simp_all

lemma calls_emit_call: "calls (trace (emit (NotiCallback kw) b)) = calls (trace b) @ [kw]"
  by (simp add: emit_def calls_append)

lemma calls_emit_log: "calls (trace (emit (Log m) b)) = calls (trace b)"
  by (simp add: emit_def calls_append)

declare noti_loop.simps(2) [simp del]

lemma noti_loop_dup:
  "s \<in> set (last_notifications b) \<Longrightarrow> noti_loop data (s # rest) b = noti_loop data rest b"
  by (simp add: noti_loop.simps(2) accept_def)

lemma noti_loop_dups:
  "set sigs \<subseteq> set (last_notifications b) \<Longrightarrow> noti_loop data sigs b = (None, b)"
  by (induction sigs) (simp_all add: noti_loop_dup)

lemma noti_loop_fresh_step:
  assumes "s \<notin> set (last_notifications b)" "decode_signal s = Some sig" "noti_callback b = Some cb"
  shows "noti_loop data (s # rest) b =
     (case cb (structured_kwargs sig data) of
        None \<Rightarrow> noti_loop data rest (after_call s sig data b)
      | Some TypeError \<Rightarrow>
          noti_loop data rest (emit (Log ''Failed to call notification callback'') (after_call s sig data b))
      | Some e \<Rightarrow> (Some e, after_call s sig data b))"
  using assms
  by (simp add: noti_loop.simps(2) accept_def call_noti_def after_call_def emit_def Let_def
      split: option.splits exc.splits)

lemma after_call_fields:
  "last_notifications (after_call s sig data b) = pop_excess (last_notifications b @ [s])"
  "noti_callback (after_call s sig data b) = noti_callback b"
  "calls (trace (after_call s sig data b)) = calls (trace b) @ [structured_kwargs sig data]"
  by (simp_all add: after_call_def emit_def Let_def calls_append)

lemma emit_fields:
  "last_notifications (emit e b) = last_notifications b"
  "noti_callback (emit e b) = noti_callback b"
  by (simp_all add: emit_def)

lemma noti_loop_fresh:
  assumes "distinct sigs" "set sigs \<inter> set (last_notifications b) = {}"
    "\<forall>s\<in>set sigs. decode_signal s \<noteq> None" "noti_callback b = Some cb"
    "\<forall>kw. cb kw = None \<or> cb kw = Some TypeError" "length (last_notifications b) \<le> 12"
  shows "fst (noti_loop data sigs b) = None
    \<and> last_notifications (snd (noti_loop data sigs b)) = pop_excess (last_notifications b @ sigs)
    \<and> calls (trace (snd (noti_loop data sigs b)))
        = calls (trace b) @ map (\<lambda>s. structured_kwargs (the (decode_signal s)) data) sigs"
  using assms
proof (induction sigs arbitrary: b)
  case Nil
  then show ?case by (simp add: pop_excess_short)
next
  case (Cons s rest)
  from Cons.prems obtain sig where sig: "decode_signal s = Some sig" by auto
  have fresh: "s \<notin> set (last_notifications b)" using Cons.prems(2) by auto
  let ?b3 = "after_call s sig data b"
  let ?b4 = "emit (Log ''Failed to call notification callback'') ?b3"
  have w3: "last_notifications ?b3 = pop_excess (last_notifications b @ [s])"
    by (simp add: after_call_fields)
  have disj: "set rest \<inter> set (pop_excess (last_notifications b @ [s])) = {}"
    using Cons.prems(1,2) set_pop_excess[of "last_notifications b @ [s]"] by auto
  have pe: "pop_excess (pop_excess (last_notifications b @ [s]) @ rest)
            = pop_excess (last_notifications b @ s # rest)"
    using pop_excess_append[of "last_notifications b @ [s]" rest] by simp
  have IH3: "fst (noti_loop data rest ?b3) = None
    \<and> last_notifications (snd (noti_loop data rest ?b3)) = pop_excess (last_notifications b @ s # rest)
    \<and> calls (trace (snd (noti_loop data rest ?b3)))
        = calls (trace b) @ map (\<lambda>s. structured_kwargs (the (decode_signal s)) data) (s # rest)"
    using Cons.IH[of ?b3] Cons.prems disj
    by (simp add: after_call_fields pe sig length_pop_excess)
  have IH4: "fst (noti_loop data rest ?b4) = None
    \<and> last_notifications (snd (noti_loop data rest ?b4)) = pop_excess (last_notifications b @ s # rest)
    \<and> calls (trace (snd (noti_loop data rest ?b4)))
        = calls (trace b) @ map (\<lambda>s. structured_kwargs (the (decode_signal s)) data) (s # rest)"
    using Cons.IH[of ?b4] Cons.prems disj
    by (simp add: after_call_fields emit_fields calls_emit_log pe sig length_pop_excess)
  from Cons.prems(5) have "cb (structured_kwargs sig data) = None
      \<or> cb (structured_kwargs sig data) = Some TypeError" by blast
  then show ?case
  proof
    assume "cb (structured_kwargs sig data) = None"
    then have "noti_loop data (s # rest) b = noti_loop data rest ?b3"
      by (simp add: noti_loop_fresh_step[OF fresh sig Cons.prems(4)])
    then show ?thesis using IH3 by simp
  next
    assume "cb (structured_kwargs sig data) = Some TypeError"
    then have "noti_loop data (s # rest) b = noti_loop data rest ?b4"
      by (simp add: noti_loop_fresh_step[OF fresh sig Cons.prems(4)])
    then show ?thesis using IH4 by simp
  qed
qed

lemma finditer_frames:
  "list_all is_frame fs \<Longrightarrow> finditer (message_of (concat fs)) = map message_of fs"
  by (simp add: finditer_message_of scanFrames_concat)

lemma decode_frame: "is_frame f \<Longrightarrow> decode_signal (message_of f) = Some (map uint f)"
  by (simp add: is_frame_def decode_message_of)

lemma noti_loop_identical:
  assumes "s \<notin> set (last_notifications b)" "decode_signal s = Some sig" "noti_callback b = Some cb"
  shows "calls (trace (snd (noti_loop data (s # replicate n s) b)))
           = calls (trace b) @ [structured_kwargs sig data]
       \<and> last_notifications (snd (noti_loop data (s # replicate n s) b))
           = pop_excess (last_notifications b @ [s])"
proof -
  let ?b3 = "after_call s sig data b"
  let ?b4 = "emit (Log ''Failed to call notification callback'') ?b3"
  have d3: "noti_loop data (replicate n s) ?b3 = (None, ?b3)"
    by (rule noti_loop_dups) (auto simp: after_call_fields last_in_pop_excess set_replicate_conv_if)
  have d4: "noti_loop data (replicate n s) ?b4 = (None, ?b4)"
    by (rule noti_loop_dups)
       (auto simp: after_call_fields emit_fields last_in_pop_excess set_replicate_conv_if)
  show ?thesis
  proof (cases "cb (structured_kwargs sig data)")
    case None
    then show ?thesis
      by (simp add: noti_loop_fresh_step[OF assms] d3 after_call_fields)
  next
    case (Some e)
    then show ?thesis
      by (cases e)
         (simp_all add: noti_loop_fresh_step[OF assms] d3 d4 after_call_fields emit_fields calls_emit_log)
  qed
qed

lemma after_call_trace:
  "trace (after_call s (map uint f) data b)
     = trace b
       @ (if Some (map uint f ! 5) \<noteq> calc_checksum (map uint f) True
          then [Log ''Incoming Notification was discarded because the Checksum was incorrect'']
          else [])
       @ [NotiCallback (structured_kwargs (map uint f) data)]"
  by (simp add: after_call_def emit_def Let_def)

lemma noti_loop_deliveries:
  assumes "list_all is_frame fs" "noti_callback b = Some cb"
  shows "trace (snd (noti_loop data (map message_of fs) b))
           = trace b @ deliveries cb data (last_notifications b) fs"
  using assms
proof (induction fs arbitrary: b)
  case Nil
  then show ?case by simp
next
  case (Cons f fs)
  have fr: "is_frame f" and frs: "list_all is_frame fs" using Cons.prems(1) by simp_all
  let ?s = "message_of f"
  let ?kw = "structured_kwargs (map uint f) data"
  show ?case
  proof (cases "?s \<in> set (last_notifications b)")
    case True
    then show ?thesis using Cons.IH[OF frs Cons.prems(2)]
      by (simp add: noti_loop_dup accept_def)
  next
    case False
    have dec: "decode_signal ?s = Some (map uint f)" by (rule decode_frame[OF fr])
    have n5: "map uint f ! 5 = uint (f ! 5)" using fr by (simp add: is_frame_def)
    let ?b3 = "after_call ?s (map uint f) data b"
    let ?b4 = "emit (Log ''Failed to call notification callback'') ?b3"
    have acc: "accept ?s (last_notifications b)
               = (True, pop_excess (last_notifications b @ [?s]))"
      using False by (simp add: accept_def)
    have t3: "trace ?b3 = trace b
       @ (if calc_checksum (map uint f) True \<noteq> Some (uint (f ! 5))
          then [Log ''Incoming Notification was discarded because the Checksum was incorrect'']
          else [])
       @ [NotiCallback ?kw]"
      by (simp add: after_call_trace n5 eq_commute)
    have IH3: "trace (snd (noti_loop data (map message_of fs) ?b3))
        = trace ?b3 @ deliveries cb data (pop_excess (last_notifications b @ [?s])) fs"
      using Cons.IH[OF frs, of ?b3] Cons.prems(2) by (simp add: after_call_fields)
    have IH4: "trace (snd (noti_loop data (map message_of fs) ?b4))
        = trace ?b4 @ deliveries cb data (pop_excess (last_notifications b @ [?s])) fs"
      using Cons.IH[OF frs, of ?b4] Cons.prems(2) by (simp add: after_call_fields emit_fields)
    have step: "noti_loop data (?s # map message_of fs) b =
         (case cb ?kw of
            None \<Rightarrow> noti_loop data (map message_of fs) ?b3
          | Some TypeError \<Rightarrow> noti_loop data (map message_of fs) ?b4
          | Some e \<Rightarrow> (Some e, ?b3))"
      by (rule noti_loop_fresh_step[OF False dec Cons.prems(2)])
    show ?thesis
    proof (cases "cb ?kw")
      case None
      then show ?thesis using IH3 t3
        by (simp add: step acc frame_events_def)
    next
      case (Some ex)
      show ?thesis
      proof (cases "ex = TypeError")
        case True
        then show ?thesis using Some IH4 t3
          by (simp add: step acc frame_events_def emit_def)
      next
        case False
        then show ?thesis using Some t3
          by (cases ex) (simp_all add: step acc frame_events_def)
      qed
    qed
  qed
qed

lemma scanFrames_all_frames: "list_all is_frame (scanFrames data)"
  using scanFrames_frames by (auto simp: list_all_iff)

lemma handler_deliveries:
  assumes "scanFrames data \<noteq> []" "noti_callback b = Some cb"
  shows "trace (snd (notification_handler data b))
           = trace b @ deliveries cb data (last_notifications b) (scanFrames data)"
proof -
  have "notification_handler data b = noti_loop data (map message_of (scanFrames data)) b"
    using assms(1) by (simp add: notification_handler_def finditer_message_of)
  then show ?thesis
    using noti_loop_deliveries[OF scanFrames_all_frames assms(2)] by simp
qed

lemma passed_frames_subset: "x \<in> set (passed_frames w fs) \<Longrightarrow> x \<in> set fs"
proof (induction fs arbitrary: w)
  case Nil
  then show ?case by simp
next
  case (Cons f fs)
  show ?case
  proof (cases "message_of f \<in> set w")
    case True
    then show ?thesis using Cons by (simp add: accept_def)
  next
    case False
    then show ?thesis using Cons by (auto simp: accept_def)
  qed
qed

lemma deliveries_benign:
  assumes "\<forall>kw. cb kw = None \<or> cb kw = Some TypeError"
  shows "deliveries cb data w fs = concat (map (frame_events cb data) (passed_frames w fs))"
  using assms by (induction fs arbitrary: w) (auto simp: accept_def)


lemma message_of_eq_iff: "message_of xs = message_of ys \<longleftrightarrow> xs = ys"
  using message_of_inject by blast

section \<open>Lemmas on the sender\<close>

lemma write_loop_keeps:
  "next_send_id (snd (write_loop e d n g b)) = next_send_id b
   \<and> client (snd (write_loop e d n g b)) = client b
   \<and> n_draws (snd (write_loop e d n g b)) = n_draws b"
  by (induction n arbitrary: b) (auto simp: emit_def Let_def split: option.splits)

lemma send_bytes_keeps:
  "next_send_id (snd (send_bytes e d r g ev b)) = next_send_id b
   \<and> client (snd (send_bytes e d r g ev b)) = client b
   \<and> n_draws (snd (send_bytes e d r g ev b)) = n_draws b"
  using write_loop_keeps[of e d "nat r" g b]
  by (auto simp: send_bytes_def emit_def split: prod.splits option.splits)

lemma next_message_id_counter:
  "next_send_id (snd (next_message_id e rid b)) = (next_send_id b + 1) mod 256"
  by (simp add: next_message_id_def randrange_def)

lemma send_signal_counter:
  "next_send_id (snd (send_signal e a ev b)) = (next_send_id b + 1) mod 256"
proof -
  obtain reserved b1 where r: "randrange 0 255 e b = (reserved, b1)" by (cases "randrange 0 255 e b")
  obtain mid b2 where m: "next_message_id e (random_id a) b1 = (mid, b2)"
    by (cases "next_message_id e (random_id a) b1")
  have b1: "next_send_id b1 = next_send_id b" using r by (auto simp: randrange_def)
  have b2: "next_send_id b2 = (next_send_id b + 1) mod 256"
    using next_message_id_counter[of e "random_id a" b1] m b1 by simp
  show ?thesis
    by (simp add: send_signal_def r m Let_def b2 send_bytes_keeps split: option.splits)
qed

lemma message_id_of_counter: "\<not> random_id a \<Longrightarrow> message_id_of e a b = next_send_id b"
  by (simp add: message_id_of_def next_message_id_def randrange_def)

lemma message_id_of_random:
  "random_id a \<Longrightarrow> message_id_of e a b = int (rand e (Suc (n_draws b))) mod 255"
  by (simp add: message_id_of_def next_message_id_def randrange_def)

lemma upt_shift: "[0..<Suc n] = 0 # map Suc [0..<n]"
  by (simp add: upt_conv_Cons map_Suc_upt del: upt_Suc)

lemma run_sends_counter:
  assumes "list_all (\<lambda>a. \<not> random_id a) as" "0 \<le> next_send_id b" "next_send_id b < 256"
  shows "fst (run_sends e as b) = map (\<lambda>k. (next_send_id b + int k) mod 256) [0..<length as]"
  using assms
proof (induction as arbitrary: b)
  case Nil
  then show ?case by simp
next
  case (Cons a as)
  let ?b1 = "snd (send_signal e a None b)"
  have c1: "next_send_id ?b1 = (next_send_id b + 1) mod 256" by (rule send_signal_counter)
  have "fst (run_sends e as ?b1) = map (\<lambda>k. (next_send_id ?b1 + int k) mod 256) [0..<length as]"
    using Cons.prems by (intro Cons.IH) (simp_all add: c1)
  also have "\<dots> = map (\<lambda>k. (next_send_id b + int (Suc k)) mod 256) [0..<length as]"
  proof -
    have "\<And>k::int. ((next_send_id b + 1) mod 256 + k) mod 256 = (next_send_id b + (k + 1)) mod 256"
      by (simp add: mod_add_left_eq add.assoc add.commute[of 1])
    then show ?thesis by (simp add: c1 add.commute[of _ 1])
  qed
  finally have t: "fst (run_sends e as ?b1)
     = map (\<lambda>k. (next_send_id b + int (Suc k)) mod 256) [0..<length as]" .
  have h: "message_id_of e a b = next_send_id b"
    using Cons.prems by (simp add: message_id_of_counter)
  have "fst (run_sends e (a # as) b) = message_id_of e a b # fst (run_sends e as ?b1)"
    by (simp add: split_beta Let_def)
  also have "\<dots> = next_send_id b # map (\<lambda>k. (next_send_id b + int (Suc k)) mod 256) [0..<length as]"
    by (simp only: h t)
  also have "\<dots> = map (\<lambda>k. (next_send_id b + int k) mod 256) (0 # map Suc [0..<length as])"
    using Cons.prems(2,3) by (simp add: o_def)
  also have "\<dots> = map (\<lambda>k. (next_send_id b + int k) mod 256) [0..<Suc (length as)]"
    by (simp only: upt_shift)
  finally show ?case by (simp del: upt_Suc)
qed



lemma write_loop_draws: "n_draws (snd (write_loop e d n g b)) = n_draws b"
  by (simp add: write_loop_keeps)

lemma send_signal_draws:
  "n_draws (snd (send_signal e a ev b)) = n_draws b + (if random_id a then 2 else 1)"
proof -
  obtain reserved b1 where r: "randrange 0 255 e b = (reserved, b1)" by (cases "randrange 0 255 e b")
  obtain mid b2 where m: "next_message_id e (random_id a) b1 = (mid, b2)"
    by (cases "next_message_id e (random_id a) b1")
  have b1: "n_draws b1 = Suc (n_draws b)" using r by (auto simp: randrange_def)
  have b2: "n_draws b2 = n_draws b1 + (if random_id a then 1 else 0)"
    using m by (auto simp: next_message_id_def randrange_def split: if_splits)
  show ?thesis
    by (simp add: send_signal_def r m Let_def b1 b2 send_bytes_keeps split: option.splits)
qed

lemma write_loop_ok:
  assumes "client b = Some c" "\<forall>i<n. write_gatt_char e (n_writes b + i) = None"
  shows "fst (write_loop e d n g b) = None \<and> n_writes (snd (write_loop e d n g b)) = n_writes b + n"
  using assms
proof (induction n arbitrary: b)
  case 0
  then show ?case by simp
next
  case (Suc n)
  let ?b2 = "emit (Sleep g) (emit (Write d) (b\<lparr>n_writes := Suc (n_writes b)\<rparr>))"
  have w0: "write_gatt_char e (n_writes b) = None" using Suc.prems(2) by (metis add.right_neutral zero_less_Suc)
  have c2: "client ?b2 = Some c" using Suc.prems(1) by (simp add: emit_def)
  have n2: "n_writes ?b2 = Suc (n_writes b)" by (simp add: emit_def)
  have "\<forall>i<n. write_gatt_char e (n_writes ?b2 + i) = None"
  proof (intro allI impI)
    fix i assume "i < n"
    then have "Suc i < Suc n" by simp
    then have "write_gatt_char e (n_writes b + Suc i) = None" using Suc.prems(2) by blast
    then show "write_gatt_char e (n_writes ?b2 + i) = None" by (simp add: n2)
  qed
  from Suc.IH[OF c2 this] show ?case
    using Suc.prems(1) w0 by (simp add: Let_def n2)
qed

lemma write_loop_fail:
  assumes "client b = Some c" "j < n" "\<forall>i<j. write_gatt_char e (n_writes b + i) = None"
    "write_gatt_char e (n_writes b + j) = Some ex"
  shows "fst (write_loop e d n g b) = Some ex
       \<and> n_writes (snd (write_loop e d n g b)) = n_writes b + j + 1"
  using assms
proof (induction n arbitrary: b j)
  case 0
  then show ?case by simp
next
  case (Suc n)
  let ?b2 = "emit (Sleep g) (emit (Write d) (b\<lparr>n_writes := Suc (n_writes b)\<rparr>))"
  show ?case
  proof (cases j)
    case 0
    then show ?thesis using Suc.prems by (simp add: Let_def emit_def)
  next
    case (Suc k)
    have w0: "write_gatt_char e (n_writes b) = None"
      using Suc.prems(3) Suc by (metis add.right_neutral zero_less_Suc)
    have c2: "client ?b2 = Some c" using Suc.prems(1) by (simp add: emit_def)
    have n2: "n_writes ?b2 = Suc (n_writes b)" by (simp add: emit_def)
    have k: "k < n" using Suc.prems(2) Suc by simp
    have ok: "\<forall>i<k. write_gatt_char e (n_writes ?b2 + i) = None"
    proof (intro allI impI)
      fix i assume "i < k"
      then have "Suc i < j" using Suc by simp
      then have "write_gatt_char e (n_writes b + Suc i) = None" using Suc.prems(3) by blast
      then show "write_gatt_char e (n_writes ?b2 + i) = None" by (simp add: n2)
    qed
    have f: "write_gatt_char e (n_writes ?b2 + k) = Some ex"
      using Suc.prems(4) Suc by (simp add: n2)
    from Suc.IH[OF c2 k ok f] show ?thesis
      using Suc.prems(1) w0 Suc by (simp add: Let_def n2)
  qed
qed

lemma write_loop_trace: "\<exists>evs. trace (snd (write_loop e d n g b)) = trace b @ evs"
proof (induction n arbitrary: b)
  case 0
  then show ?case by simp
next
  case (Suc n)
  let ?b2 = "emit (Sleep g) (emit (Write d) (b\<lparr>n_writes := Suc (n_writes b)\<rparr>))"
  obtain evs where "trace (snd (write_loop e d n g ?b2)) = trace ?b2 @ evs"
    using Suc.IH[of ?b2] by blast
  then show ?case
    by (auto simp: Let_def emit_def split: option.splits)
qed

lemma write_loop_first:
  assumes "client b = Some c" "0 < n"
  shows "\<exists>rest. trace (snd (write_loop e d n g b)) = trace b @ Write d # rest"
proof -
  obtain m where m: "n = Suc m" using assms(2) by (cases n) auto
  let ?b2 = "emit (Sleep g) (emit (Write d) (b\<lparr>n_writes := Suc (n_writes b)\<rparr>))"
  obtain evs where "trace (snd (write_loop e d m g ?b2)) = trace ?b2 @ evs"
    using write_loop_trace[of e d m g ?b2] by blast
  then show ?thesis using assms(1)
    by (auto simp: m Let_def emit_def split: option.splits)
qed


lemma send_signal_frame:
  assumes "valid_args a" "0 \<le> next_send_id b" "next_send_id b < 256"
  shows "\<exists>frame b2. send_signal e a ev b = send_bytes e frame (resends a) (resend_gap a) ev b2
           \<and> n_writes b2 = n_writes b \<and> client b2 = client b \<and> trace b2 = trace b"
proof -
  obtain reserved b1 where r: "randrange 0 255 e b = (reserved, b1)" by (cases "randrange 0 255 e b")
  obtain mid b2 where m: "next_message_id e (random_id a) b1 = (mid, b2)"
    by (cases "next_message_id e (random_id a) b1")
  have r1: "0 \<le> reserved \<and> reserved < 256" using r by (auto simp: randrange_def)
  have b1: "n_writes b1 = n_writes b \<and> client b1 = client b \<and> trace b1 = trace b
            \<and> next_send_id b1 = next_send_id b"
    using r by (auto simp: randrange_def)
  have m1: "0 \<le> mid \<and> mid < 256"
    using m b1 assms(2,3) by (auto simp: next_message_id_def randrange_def split: if_splits)
  have b2: "n_writes b2 = n_writes b \<and> client b2 = client b \<and> trace b2 = trace b"
    using m b1 by (auto simp: next_message_id_def randrange_def split: if_splits)
  have "bytes_of [header a, stone a, status a, reserved, mid,
                  (header a + stone a + status a + reserved + mid) mod 256, color_channel a] \<noteq> None"
    using assms(1) r1 m1 by (simp add: bytes_of_def valid_args_def)
  then obtain frame where f: "bytes_of [header a, stone a, status a, reserved, mid,
                  (header a + stone a + status a + reserved + mid) mod 256, color_channel a] = Some frame"
    by blast
  have "send_signal e a ev b = send_bytes e frame (resends a) (resend_gap a) ev b2"
    by (simp add: send_signal_def r m Let_def f)
  then show ?thesis using b2 by blast
qed

lemma send_signal_ok:
  assumes "valid_args a" "0 \<le> next_send_id b" "next_send_id b < 256" "client b = Some c"
    "\<forall>i < nat (resends a). write_gatt_char e (n_writes b + i) = None"
  shows "fst (send_signal e a ev b) = (None, ev)
       \<and> n_writes (snd (send_signal e a ev b)) = n_writes b + nat (resends a)"
proof -
  obtain frame b2 where s: "send_signal e a ev b = send_bytes e frame (resends a) (resend_gap a) ev b2"
    and b2: "n_writes b2 = n_writes b" "client b2 = client b"
    using send_signal_frame[OF assms(1,2,3), of e ev] by blast
  have "fst (write_loop e frame (nat (resends a)) (resend_gap a) b2) = None
     \<and> n_writes (snd (write_loop e frame (nat (resends a)) (resend_gap a) b2))
        = n_writes b2 + nat (resends a)"
    by (rule write_loop_ok[of b2 c]) (simp_all add: b2 assms)
  then show ?thesis by (auto simp: s send_bytes_def b2 split: prod.splits option.splits)
qed

lemma send_signal_fail:
  assumes "valid_args a" "0 \<le> next_send_id b" "next_send_id b < 256" "client b = Some c"
    "j < nat (resends a)" "\<forall>i<j. write_gatt_char e (n_writes b + i) = None"
    "write_gatt_char e (n_writes b + j) = Some ex" "caught_on_send ex"
  shows "fst (send_signal e a ev b) = (None, set_event ev)
       \<and> n_writes (snd (send_signal e a ev b)) = n_writes b + j + 1"
proof -
  obtain frame b2 where s: "send_signal e a ev b = send_bytes e frame (resends a) (resend_gap a) ev b2"
    and b2: "n_writes b2 = n_writes b" "client b2 = client b"
    using send_signal_frame[OF assms(1,2,3), of e ev] by blast
  have "fst (write_loop e frame (nat (resends a)) (resend_gap a) b2) = Some ex
     \<and> n_writes (snd (write_loop e frame (nat (resends a)) (resend_gap a) b2))
        = n_writes b2 + j + 1"
    by (rule write_loop_fail[of b2 c]) (simp_all add: b2 assms)
  then show ?thesis using assms(8)
    by (auto simp: s send_bytes_def b2 caught_on_send_def emit_def split: prod.splits option.splits)
qed

lemma send_bytes_trace: "\<exists>evs. trace (snd (send_bytes e d r g ev b)) = trace b @ evs"
proof -
  obtain evs where "trace (snd (write_loop e d (nat r) g b)) = trace b @ evs"
    using write_loop_trace by blast
  then show ?thesis
    by (auto simp: send_bytes_def emit_def split: prod.splits option.splits)
qed

lemma send_bytes_first:
  assumes "client b = Some c" "0 < r"
  shows "\<exists>rest. trace (snd (send_bytes e d r g ev b)) = trace b @ Write d # rest"
proof -
  obtain rest where "trace (snd (write_loop e d (nat r) g b)) = trace b @ Write d # rest"
    using write_loop_first[OF assms(1), of "nat r" e d g] assms(2) by auto
  then show ?thesis
    by (auto simp: send_bytes_def emit_def split: prod.splits option.splits)
qed

lemma send_signal_first:
  assumes "valid_args a" "0 \<le> next_send_id b" "next_send_id b < 256" "client b = Some c"
    "0 < resends a"
  shows "\<exists>frame rest. trace (snd (send_signal e a ev b)) = trace b @ Write frame # rest"
proof -
  obtain frame b2 where s: "send_signal e a ev b = send_bytes e frame (resends a) (resend_gap a) ev b2"
    and b2: "client b2 = client b" "trace b2 = trace b"
    using send_signal_frame[OF assms(1,2,3), of e ev] by blast
  have "client b2 = Some c" using b2 assms(4) by simp
  from send_bytes_first[OF this assms(5), of e frame "resend_gap a" ev]
  show ?thesis by (auto simp: s b2)
qed

lemma send_signal_trace: "\<exists>evs. trace (snd (send_signal e a ev b)) = trace b @ evs"
proof -
  obtain reserved b1 where r: "randrange 0 255 e b = (reserved, b1)" by (cases "randrange 0 255 e b")
  obtain mid b2 where m: "next_message_id e (random_id a) b1 = (mid, b2)"
    by (cases "next_message_id e (random_id a) b1")
  have b2: "trace b2 = trace b"
    using r m by (auto simp: next_message_id_def randrange_def split: if_splits)
  show ?thesis
    using send_bytes_trace[where b = b2] b2
    by (auto simp: send_signal_def r m Let_def split: option.splits)
qed

lemma send_signal_client: "client (snd (send_signal e a ev b)) = client b"
proof -
  obtain reserved b1 where r: "randrange 0 255 e b = (reserved, b1)" by (cases "randrange 0 255 e b")
  obtain mid b2 where m: "next_message_id e (random_id a) b1 = (mid, b2)"
    by (cases "next_message_id e (random_id a) b1")
  have b2: "client b2 = client b"
    using r m by (auto simp: next_message_id_def randrange_def split: if_splits)
  show ?thesis
    by (simp add: send_signal_def r m Let_def b2 send_bytes_keeps split: option.splits)
qed

lemma periodic_loop_stopped: "periodic_loop e a gap True i n True b = (None, b)"
  by (cases n) simp_all

lemma add_checksum_examples:
  "add_checksum [19, 5, 0, 0, 0, 0, 1] False = Inr (Some [19, 5, 0, 0, 0, 24, 1])
   \<and> add_checksum [300, 0, 0, 0, 0, 0, 1] False = Inl ValueError
   \<and> add_checksum [1, 2, 3] False = Inr None"
  by (simp add: add_checksum_def calc_checksum_def bytes_of_def)

lemma periodic_loop_trace:
  "\<exists>evs. trace (snd (periodic_loop e a gap stop i n ev b)) = trace b @ evs"
proof (induction n arbitrary: i ev b)
  case 0
  then show ?case by simp
next
  case (Suc n)
  let ?b1 = "if gap > 0 \<and> i > 0 then emit (Sleep gap) b else b"
  obtain r ev' b2 where s: "send_signal e a (Some ev) ?b1 = ((r, ev'), b2)"
    by (metis prod.collapse)
  have "\<exists>evs1. trace ?b1 = trace b @ evs1" by (simp add: emit_def)
  then obtain evs1 where t1: "trace ?b1 = trace b @ evs1" by blast
  obtain evs2 where t2: "trace b2 = trace ?b1 @ evs2"
    using send_signal_trace[of e a "Some ev" ?b1] s by auto
  obtain evs3 where t3: "trace (snd (periodic_loop e a gap stop (Suc i) n
        (case ev' of None \<Rightarrow> ev | Some f \<Rightarrow> f) b2)) = trace b2 @ evs3"
    using Suc.IH by blast
  show ?case
  proof (cases "stop \<and> ev")
    case True
    then show ?thesis by simp
  next
    case False
    then show ?thesis using s t1 t2 t3
      by (cases r) (auto simp: Let_def)
  qed
qed

lemma mod_shift: "((x + 1) mod 256 + y + 1) mod (256::int) = (x + (y + 1) + 1) mod 256"
proof -
  have "((x + 1) mod 256 + (y + 1)) mod 256 = ((x + 1) + (y + 1)) mod 256"
    by (rule mod_add_left_eq)
  then show ?thesis by (simp add: ac_simps)
qed

lemma periodic_fail_at:
  assumes c: "client b = Some c"
    and id: "0 \<le> next_send_id b" "next_send_id b < 256"
    and v: "valid_args a"
    and ok: "\<forall>x < k * nat (resends a) + j. write_gatt_char e (n_writes b + x) = None"
    and j: "j < nat (resends a)"
    and bad: "write_gatt_char e (n_writes b + k * nat (resends a) + j) = Some ex" "caught_on_send ex"
  shows "\<exists>b2. (\<forall>m. periodic_loop e a gap True i (Suc (k + m)) False b = (None, b2))
           \<and> next_send_id b2 = (next_send_id b + int k + 1) mod 256
           \<and> n_writes b2 = n_writes b + k * nat (resends a) + j + 1"
  using c id ok bad(1)
proof (induction k arbitrary: b i)
  case 0
  define b1 where "b1 = (if gap > 0 \<and> i > 0 then emit (Sleep gap) b else b)"
  define b2 where "b2 = snd (send_signal e a (Some False) b1)"
  have f1: "client b1 = Some c" "next_send_id b1 = next_send_id b" "n_writes b1 = n_writes b"
    using "0.prems"(1) by (simp_all add: b1_def emit_def)
  have "fst (send_signal e a (Some False) b1) = (None, set_event (Some False))
       \<and> n_writes b2 = n_writes b1 + j + 1"
    unfolding b2_def
    by (rule send_signal_fail[OF v _ _ f1(1) j _ _ bad(2)]) (use "0.prems" f1 in simp_all)
  then have s: "send_signal e a (Some False) b1 = ((None, Some True), b2)"
    and n: "n_writes b2 = n_writes b + j + 1"
    unfolding b2_def set_event_def using f1 by (simp_all add: prod_eq_iff)
  have loop: "\<And>m. periodic_loop e a gap True i (Suc (0 + m)) False b = (None, b2)"
  proof -
    fix m
    have "periodic_loop e a gap True i (Suc m) False b
          = periodic_loop e a gap True (Suc i) m True b2"
      by (subst periodic_loop.simps(2)) (simp add: s[unfolded b1_def] del: periodic_loop.simps)
    then show "periodic_loop e a gap True i (Suc (0 + m)) False b = (None, b2)"
      by (simp add: periodic_loop_stopped del: periodic_loop.simps)
  qed
  have idc: "next_send_id b2 = (next_send_id b + int 0 + 1) mod 256"
    unfolding b2_def by (simp add: send_signal_counter f1)
  show ?case using loop idc n by (intro exI[of _ b2]) simp
next
  case (Suc k)
  define r where "r = nat (resends a)"
  define b1 where "b1 = (if gap > 0 \<and> i > 0 then emit (Sleep gap) b else b)"
  define b2 where "b2 = snd (send_signal e a (Some False) b1)"
  have f1: "client b1 = Some c" "next_send_id b1 = next_send_id b" "n_writes b1 = n_writes b"
    using Suc.prems(1) by (simp_all add: b1_def emit_def)
  have okr: "\<forall>x < nat (resends a). write_gatt_char e (n_writes b1 + x) = None"
    using Suc.prems(4) f1 by simp
  have "fst (send_signal e a (Some False) b1) = (None, Some False)
       \<and> n_writes b2 = n_writes b1 + nat (resends a)"
    unfolding b2_def
    by (rule send_signal_ok[OF v _ _ f1(1) okr]) (use Suc.prems f1 in simp_all)
  then have s: "send_signal e a (Some False) b1 = ((None, Some False), b2)"
    and n: "n_writes b2 = n_writes b + r"
    unfolding b2_def r_def using f1 by (simp_all add: prod_eq_iff)
  have c2: "client b2 = Some c" unfolding b2_def by (simp add: send_signal_client f1)
  have i2: "next_send_id b2 = (next_send_id b + 1) mod 256"
    unfolding b2_def by (simp add: send_signal_counter f1)
  have ok2: "\<forall>x < k * nat (resends a) + j. write_gatt_char e (n_writes b2 + x) = None"
  proof (intro allI impI)
    fix x assume "x < k * nat (resends a) + j"
    then have "r + x < Suc k * nat (resends a) + j" by (simp add: r_def)
    then have "write_gatt_char e (n_writes b + (r + x)) = None" using Suc.prems(4) by blast
    then show "write_gatt_char e (n_writes b2 + x) = None" by (simp add: n add.assoc)
  qed
  have bad2: "write_gatt_char e (n_writes b2 + k * nat (resends a) + j) = Some ex"
    using Suc.prems(5) by (simp add: n r_def add.commute add.left_commute)
  obtain b3 where L: "\<forall>m. periodic_loop e a gap True (Suc i) (Suc (k + m)) False b2 = (None, b3)"
    and i3: "next_send_id b3 = (next_send_id b2 + int k + 1) mod 256"
    and n3: "n_writes b3 = n_writes b2 + k * nat (resends a) + j + 1"
    using Suc.IH[OF c2 _ _ ok2 bad2, of "Suc i"] i2 by auto
  have loop: "\<And>m. periodic_loop e a gap True i (Suc (Suc k + m)) False b = (None, b3)"
  proof -
    fix m
    have "periodic_loop e a gap True i (Suc (Suc (k + m))) False b
          = periodic_loop e a gap True (Suc i) (Suc (k + m)) False b2"
      by (subst periodic_loop.simps(2)) (simp add: s[unfolded b1_def] del: periodic_loop.simps)
    then show "periodic_loop e a gap True i (Suc (Suc k + m)) False b = (None, b3)"
      using L by simp
  qed
  have "(next_send_id b2 + int k + 1) mod 256 = (next_send_id b + int (Suc k) + 1) mod 256"
    unfolding i2 by (simp only: of_nat_Suc mod_shift add.commute[of 1 "int k"])
  then have idc: "next_send_id b3 = (next_send_id b + int (Suc k) + 1) mod 256" using i3 by simp
  have nw: "n_writes b3 = n_writes b + Suc k * nat (resends a) + j + 1"
    using n3 n by (simp add: r_def)
  show ?case using loop idc nw by (intro exI[of _ b3]) simp
qed


lemma periodic_first:
  assumes "client b = Some c" "0 \<le> next_send_id b" "next_send_id b < 256" "valid_args a"
    "0 < resends a"
  shows "\<exists>frame rest. trace (snd (periodic_loop e a gap stop 0 (Suc n) False b))
                       = trace b @ Write frame # rest"
proof -
  obtain r ev' b2 where s: "send_signal e a (Some False) b = ((r, ev'), b2)"
    by (metis prod.collapse)
  obtain frame rest where t: "trace b2 = trace b @ Write frame # rest"
    using send_signal_first[OF assms(4,2,3,1,5), of e "Some False"] s by auto
  obtain evs where l: "trace (snd (periodic_loop e a gap stop (Suc 0) n
        (case ev' of None \<Rightarrow> False | Some f \<Rightarrow> f) b2)) = trace b2 @ evs"
    using periodic_loop_trace by blast
  have eq: "periodic_loop e a gap stop 0 (Suc n) False b
        = (case r of Some ex \<Rightarrow> (Some ex, b2)
           | None \<Rightarrow> periodic_loop e a gap stop (Suc 0) n
                      (case ev' of None \<Rightarrow> False | Some f \<Rightarrow> f) b2)"
    by (subst periodic_loop.simps(2)) (simp add: s del: periodic_loop.simps split: option.splits)
  show ?thesis
  proof (cases r)
    case None
    then have "trace (snd (periodic_loop e a gap stop 0 (Suc n) False b))
        = trace b @ Write frame # (rest @ evs)"
      by (simp add: eq t l del: periodic_loop.simps)
    then show ?thesis by blast
  next
    case (Some ex)
    then have "trace (snd (periodic_loop e a gap stop 0 (Suc n) False b))
        = trace b @ Write frame # rest"
      by (simp add: eq t del: periodic_loop.simps)
    then show ?thesis by blast
  qed
qed

lemma send_signal_noclient:
  assumes "valid_args a" "0 \<le> next_send_id b" "next_send_id b < 256" "client b = None"
    "0 < resends a"
  shows "fst (send_signal e a ev b) = (None, set_event ev)
       \<and> n_writes (snd (send_signal e a ev b)) = n_writes b"
proof -
  obtain frame b2 where s: "send_signal e a ev b = send_bytes e frame (resends a) (resend_gap a) ev b2"
    and b2: "n_writes b2 = n_writes b" "client b2 = client b"
    using send_signal_frame[OF assms(1,2,3), of e ev] by blast
  obtain m where m: "nat (resends a) = Suc m" using assms(5) by (cases "nat (resends a)") auto
  show ?thesis using assms(4)
    by (simp add: s send_bytes_def m b2 emit_def)
qed

lemma periodic_noclient:
  assumes "valid_args a" "0 \<le> next_send_id b" "next_send_id b < 256" "client b = None"
    "0 < resends a"
  shows "\<exists>b2. (\<forall>m. periodic_loop e a gap True 0 (Suc m) False b = (None, b2))
           \<and> next_send_id b2 = (next_send_id b + 1) mod 256 \<and> n_writes b2 = n_writes b"
proof -
  define b2 where "b2 = snd (send_signal e a (Some False) b)"
  have "fst (send_signal e a (Some False) b) = (None, set_event (Some False))"
    and n: "n_writes b2 = n_writes b"
    using send_signal_noclient[OF assms, of e "Some False"] by (simp_all add: b2_def)
  then have s: "send_signal e a (Some False) b = ((None, Some True), b2)"
    unfolding b2_def set_event_def by (simp add: prod_eq_iff)
  have loop: "\<And>m. periodic_loop e a gap True 0 (Suc m) False b = (None, b2)"
  proof -
    fix m
    have "periodic_loop e a gap True 0 (Suc m) False b
          = periodic_loop e a gap True (Suc 0) m True b2"
      by (subst periodic_loop.simps(2)) (simp add: s del: periodic_loop.simps)
    then show "periodic_loop e a gap True 0 (Suc m) False b = (None, b2)"
      by (simp add: periodic_loop_stopped del: periodic_loop.simps)
  qed
  have "next_send_id b2 = (next_send_id b + 1) mod 256"
    unfolding b2_def by (rule send_signal_counter)
  then show ?thesis using loop n by (intro exI[of _ b2]) simp
qed

section \<open>Lemmas on the session\<close>

lemma connect_same_everywhere:
  "fst (connect e name_or_addr by_name timeout dc_cb try_rec restart b)
     = fst (connect e name_or_addr by_name timeout dc_cb try_rec restart b')
   \<and> drop (length (trace b)) (trace (snd (connect e name_or_addr by_name timeout dc_cb try_rec restart b)))
     = drop (length (trace b')) (trace (snd (connect e name_or_addr by_name timeout dc_cb try_rec restart b')))"
  by (auto simp: connect_def request_bridge_info_def read_chraceristic_def emit_def Let_def
      split: arg.splits scan_outcome.splits option.splits sum.splits)

lemma request_bridge_info_client:
  "client (snd (request_bridge_info e b)) = client b
   \<and> (\<exists>evs. trace (snd (request_bridge_info e b)) = trace b @ evs)"
  by (auto simp: request_bridge_info_def read_chraceristic_def emit_def Let_def
      split: option.splits sum.splits)

lemma connect_found:
  assumes "find_device e = Found d"
  shows "client (snd (connect e (Arg ident) by_name (Arg t) (Arg cb) try_rec restart b))
           = Some (BleakClient d)
       \<and> ClientConnect (dev_address d)
           \<in> set (drop (length (trace b))
                  (trace (snd (connect e (Arg ident) by_name (Arg t) (Arg cb) try_rec restart b))))"
proof -
  let ?b4 = "emit (Log ''Connected to bridge'')
      ((emit (ClientConnect (dev_address d))
         (emit (Log ''Connecting to'')
           ((emit (FindDevice by_name ident)
              (b\<lparr>try_reconnect := try_rec, restart_notifications := restart, dc_callback := cb\<rparr>))
            \<lparr>client := Some (BleakClient d)\<rparr>)))
       \<lparr>user_disconnected := False, name := dev_name d, address := Some (dev_address d)\<rparr>)"
  obtain evs where "client (snd (request_bridge_info e ?b4)) = client ?b4"
    and "trace (snd (request_bridge_info e ?b4)) = trace ?b4 @ evs"
    using request_bridge_info_client[of e ?b4] by blast
  then show ?thesis using assms
    by (auto simp: connect_def emit_def Let_def split: option.splits prod.splits sum.splits)
qed

lemma finditer_decodable: "s \<in> set (finditer (message_of data)) \<Longrightarrow> decode_signal s \<noteq> None"
proof -
  assume "s \<in> set (finditer (message_of data))"
  then obtain f where f: "f \<in> set (scanFrames data)" "s = message_of f"
    by (auto simp: finditer_message_of)
  then have "is_frame f" using scanFrames_frames by blast
  then show ?thesis using f decode_frame by simp
qed

lemma noti_loop_TypeError:
  assumes "\<forall>s\<in>set sigs. decode_signal s \<noteq> None"
    "\<forall>cb. noti_callback b = Some cb \<longrightarrow> (\<forall>kw. cb kw = None \<or> cb kw = Some TypeError)"
  shows "fst (noti_loop data sigs b) = None"
  using assms
proof (induction sigs arbitrary: b)
  case Nil
  then show ?case by simp
next
  case (Cons s rest)
  show ?case
  proof (cases "s \<in> set (last_notifications b)")
    case True
    then show ?thesis using Cons by (simp add: noti_loop_dup)
  next
    case False
    obtain sig where sig: "decode_signal s = Some sig" using Cons.prems(1) by auto
    let ?b1 = "b\<lparr>last_notifications := pop_excess (last_notifications b @ [s])\<rparr>"
    let ?b2 = "if Some (sig ! 5) \<noteq> calc_checksum sig True
               then emit (Log ''Incoming Notification was discarded because the Checksum was incorrect'') ?b1
               else ?b1"
    have inv: "\<And>b'. noti_callback b' = noti_callback b \<Longrightarrow> fst (noti_loop data rest b') = None"
      using Cons.IH Cons.prems by simp
    show ?thesis
    proof (cases "noti_callback b")
      case None
      have "noti_loop data (s # rest) b
            = noti_loop data rest (emit (Log ''Failed to call notification callback'') ?b2)"
        using False None sig
        by (simp add: noti_loop.simps(2) accept_def call_noti_def emit_def Let_def)
      then show ?thesis using inv[of "emit (Log ''Failed to call notification callback'') ?b2"]
        by (simp add: emit_def)
    next
      case (Some cb)
      have step: "noti_loop data (s # rest) b =
         (case cb (structured_kwargs sig data) of
            None \<Rightarrow> noti_loop data rest (after_call s sig data b)
          | Some TypeError \<Rightarrow>
              noti_loop data rest (emit (Log ''Failed to call notification callback'') (after_call s sig data b))
          | Some e \<Rightarrow> (Some e, after_call s sig data b))"
        by (rule noti_loop_fresh_step[OF False sig Some])
      have "cb (structured_kwargs sig data) = None \<or> cb (structured_kwargs sig data) = Some TypeError"
        using Cons.prems(2) Some by blast
      then show ?thesis
        using inv[of "after_call s sig data b"]
          inv[of "emit (Log ''Failed to call notification callback'') (after_call s sig data b)"]
        by (auto simp: step after_call_fields emit_fields)
    qed
  qed
qed


lemma connect_default_callback:
  "dc_callback (snd (connect e (Arg ident) by_name (Arg t) (Arg None) try_rec restart b)) = None
   \<and> (\<exists>evs. trace (snd (connect e (Arg ident) by_name (Arg t) (Arg None) try_rec restart b))
               = trace b @ evs \<and> DcCallback u v \<notin> set evs)"
  by (auto simp: connect_def request_bridge_info_def read_chraceristic_def emit_def Let_def
      split: scan_outcome.splits option.splits sum.splits)

lemma notification_enable_events:
  "\<exists>evs. trace (snd (notification_enable e cb b)) = trace b @ evs \<and> DcCallback u v \<notin> set evs"
  by (auto simp: notification_enable_def emit_def Let_def split: option.splits)

lemma reconnect_events:
  "\<exists>evs. trace (snd (reconnect e addr b)) = trace b @ evs \<and> DcCallback u v \<notin> set evs"
proof -
  let ?C = "connect e (Arg addr) False (Arg 25) (Arg None) True True b"
  obtain evs where t: "trace (snd ?C) = trace b @ evs" "DcCallback u v \<notin> set evs"
    and d: "dc_callback (snd ?C) = None"
    using connect_default_callback[of e addr False 25 True True b u v] by blast
  obtain r b1 where c: "?C = (r, b1)" by (cases ?C)
  have t1: "trace b1 = trace b @ evs" and d1: "dc_callback b1 = None" using t d c by simp_all
  show ?thesis
  proof (cases r)
    case (Inl ex)
    then show ?thesis using t1 d1 t(2)
      by (auto simp: reconnect_def c call_dc_def emit_def)
  next
    case (Inr ok)
    let ?b2 = "emit (Log ''Reconnected to Bridge'') b1"
    show ?thesis
    proof (cases "noti_callback ?b2")
      case None
      then show ?thesis using Inr t1 t(2) by (auto simp: reconnect_def c emit_def Let_def)
    next
      case (Some cb)
      obtain evs2 where "trace (snd (notification_enable e cb ?b2)) = trace ?b2 @ evs2"
        "DcCallback u v \<notin> set evs2"
        using notification_enable_events[of e cb ?b2 u v] by blast
      then show ?thesis using Inr Some t1 t(2)
        by (auto simp: reconnect_def c Let_def emit_def split: prod.splits sum.splits)
    qed
  qed
qed

section \<open>Lemmas about concurrent senders\<close>


lemma set_pc_simps:
  "shared (set_pc i p s) = shared s" "send_lock (set_pc i p s) = send_lock s"
  "assigned (set_pc i p s) = assigned s" "length (tasks (set_pc i p s)) = length (tasks s)"
  by (simp_all add: set_pc_def)

lemma set_pc_pc:
  "j < length (tasks s) \<Longrightarrow>
     t_pc (tasks (set_pc i p s) ! j) = (if j = i then p else t_pc (tasks s ! j))"
  by (cases "j = i") (simp_all add: set_pc_def)

lemma set_pc_args:
  "j < length (tasks s) \<Longrightarrow> t_args (tasks (set_pc i p s) ! j) = t_args (tasks s ! j)"
  by (cases "j = i") (simp_all add: set_pc_def)

lemma finish_simps:
  "send_lock (finish i ex s) = send_lock s"
  "assigned (finish i ex s) = assigned s" "length (tasks (finish i ex s)) = length (tasks s)"
  "next_send_id (shared (finish i ex s)) = next_send_id (shared s)"
  by (simp_all add: finish_def set_pc_def emit_def Let_def)

lemma finish_pc:
  "j < length (tasks s) \<Longrightarrow>
     t_pc (tasks (finish i ex s) ! j)
       = (if j = i then Returned (if ex = TypeError \<or> is_BleakError ex \<or> ex = AttributeError
                                  then None else Some ex)
          else t_pc (tasks s ! j))"
  by (cases "j = i") (auto simp: finish_def set_pc_def Let_def)

lemma finish_args:
  "j < length (tasks s) \<Longrightarrow> t_args (tasks (finish i ex s) ! j) = t_args (tasks s ! j)"
  by (cases "j = i") (auto simp: finish_def set_pc_def Let_def)





























text \<open>
  A coroutine that runs alone does what \<open>send_signal\<close> does: after enough steps the
  Bridge, the returned exception and the error event are those of the call.
\<close>

lemma stutter_returned:
  "i < length (tasks s) \<Longrightarrow> t_pc (tasks s ! i) = Returned r \<Longrightarrow> run e (replicate k i) s = s"
  by (induction k) (simp_all add: step_def)

lemma solo_send_bytes:
  assumes "tasks s = [t]" "t_pc t = L589 frame n"
  shows "run e (replicate (Suc n + k) 0) s
         = (case write_loop e frame n (resend_gap (t_args t)) (shared s) of
              (None, b1) \<Rightarrow> s\<lparr>shared := b1, tasks := [t\<lparr>t_pc := Returned None\<rparr>]\<rparr>
            | (Some ex, b1) \<Rightarrow> finish 0 ex (s\<lparr>shared := b1\<rparr>))"
  using assms
proof (induction n arbitrary: s t)
  case 0
  have st: "step e 0 s = s\<lparr>tasks := [t\<lparr>t_pc := Returned None\<rparr>]\<rparr>"
    using 0 by (simp add: step_def set_pc_def)
  have "run e (replicate k 0) (s\<lparr>tasks := [t\<lparr>t_pc := Returned None\<rparr>]\<rparr>)
          = s\<lparr>tasks := [t\<lparr>t_pc := Returned None\<rparr>]\<rparr>"
    by (rule stutter_returned[where r = None]) simp_all
  then show ?case by (simp add: st)
next
  case (Suc n)
  have stut: "\<And>ex (s0::system). tasks s0 = [t] \<Longrightarrow>
      run e (replicate (Suc n + k) 0) (finish 0 ex s0) = finish 0 ex s0"
  proof -
    fix ex and s0 :: system assume s0: "tasks s0 = [t]"
    have "\<exists>r. t_pc (tasks (finish 0 ex s0) ! 0) = Returned r"
      using s0 by (simp add: finish_def set_pc_def Let_def)
    then obtain r where r: "t_pc (tasks (finish 0 ex s0) ! 0) = Returned r" by blast
    have len: "0 < length (tasks (finish 0 ex s0))" using s0 by (simp add: finish_simps)
    show "run e (replicate (Suc n + k) 0) (finish 0 ex s0) = finish 0 ex s0"
      by (rule stutter_returned[OF len r])
  qed
  have rep: "replicate (Suc (Suc n) + k) (0::nat) = 0 # replicate (Suc n + k) 0" by simp
  show ?case
  proof (cases "client (shared s)")
    case None
    have st: "step e 0 s = finish 0 AttributeError s"
      using Suc.prems None by (simp add: step_def)
    have wl: "write_loop e frame (Suc n) (resend_gap (t_args t)) (shared s)
                = (Some AttributeError, shared s)"
      using None by simp
    have "run e (replicate (Suc (Suc n) + k) 0) s = finish 0 AttributeError s"
      unfolding rep run.simps st by (rule stut[OF Suc.prems(1)])
    moreover have "s\<lparr>shared := shared s\<rparr> = s" by simp
    ultimately show ?thesis unfolding wl by simp
  next
    case (Some c)
    let ?b1 = "emit (Write frame) ((shared s)\<lparr>n_writes := Suc (n_writes (shared s))\<rparr>)"
    show ?thesis
    proof (cases "write_gatt_char e (n_writes (shared s))")
      case (Some ex)
      have st: "step e 0 s = finish 0 ex (s\<lparr>shared := ?b1\<rparr>)"
        using Suc.prems \<open>client (shared s) = Some c\<close> Some by (simp add: step_def Let_def)
      have wl: "write_loop e frame (Suc n) (resend_gap (t_args t)) (shared s) = (Some ex, ?b1)"
        using \<open>client (shared s) = Some c\<close> Some by (simp add: Let_def)
      have "run e (replicate (Suc (Suc n) + k) 0) s = finish 0 ex (s\<lparr>shared := ?b1\<rparr>)"
        unfolding rep run.simps st by (rule stut) (simp add: Suc.prems)
      then show ?thesis unfolding wl by simp
    next
      case None
      let ?s1 = "set_pc 0 (L589 frame n) (s\<lparr>shared := emit (Sleep (resend_gap (t_args t))) ?b1\<rparr>)"
      let ?t1 = "t\<lparr>t_pc := L589 frame n\<rparr>"
      have st: "step e 0 s = ?s1"
        using Suc.prems \<open>client (shared s) = Some c\<close> None by (simp add: step_def Let_def)
      have ts: "tasks ?s1 = [?t1]" using Suc.prems by (simp add: set_pc_def)
      have pc: "t_pc ?t1 = L589 frame n" by simp
      have sh: "shared ?s1 = emit (Sleep (resend_gap (t_args t))) ?b1" by (simp add: set_pc_def)
      have wl: "write_loop e frame (Suc n) (resend_gap (t_args t)) (shared s)
                = write_loop e frame n (resend_gap (t_args ?t1)) (shared ?s1)"
        using \<open>client (shared s) = Some c\<close> None by (simp add: sh Let_def)
      have "run e (replicate (Suc (Suc n) + k) 0) s = run e (replicate (Suc n + k) 0) ?s1"
        unfolding rep run.simps st by (rule refl)
      also have "\<dots> = (case write_loop e frame n (resend_gap (t_args ?t1)) (shared ?s1) of
              (None, b1) \<Rightarrow> ?s1\<lparr>shared := b1, tasks := [?t1\<lparr>t_pc := Returned None\<rparr>]\<rparr>
            | (Some ex, b1) \<Rightarrow> finish 0 ex (?s1\<lparr>shared := b1\<rparr>))"
        by (rule Suc.IH[OF ts pc])
      finally show ?thesis
        unfolding wl using Suc.prems(1)
        by (simp add: set_pc_def finish_def Let_def split: prod.splits option.splits)
    qed
  qed
qed


lemma solo_send_signal:
  "run e (replicate (7 + nat (resends a) + k) 0) (launch b [(a, ev)])
     = (case send_signal e a ev b of
          ((r, ev'), b') \<Rightarrow>
            \<lparr>shared = b', send_lock = False, assigned = [(0, message_id_of e a b)],
             tasks = [\<lparr>t_args = a, t_event = ev', t_pc = Returned r\<rparr>]\<rparr>)"
proof -
  obtain reserved b1 where r: "randrange 0 255 e b = (reserved, b1)"
    by (cases "randrange 0 255 e b")
  obtain mid bm where m: "(if random_id a then randrange 0 255 e b1 else (next_send_id b1, b1))
                           = (mid, bm)"
    by (cases "if random_id a then randrange 0 255 e b1 else (next_send_id b1, b1)")
  define b2 where "b2 = bm\<lparr>next_send_id := (next_send_id bm + 1) mod 256\<rparr>"
  have nm: "next_message_id e (random_id a) b1 = (mid, b2)"
    unfolding next_message_id_def m b2_def by simp
  have mid: "message_id_of e a b = mid"
    using r nm by (simp add: message_id_of_def)
  define xs where "xs = [header a, stone a, status a, reserved, mid,
              (header a + stone a + status a + reserved + mid) mod 256, color_channel a]"
  define p where "p = (case bytes_of xs of None \<Rightarrow> Returned (Some ValueError)
            | Some frame \<Rightarrow> L589 frame (nat (resends a)))"
  define mk where "mk = (\<lambda>sh lk as q.
      \<lparr>shared = sh, send_lock = lk, assigned = as,
       tasks = [\<lparr>t_args = a, t_event = ev, t_pc = q\<rparr>]\<rparr>)"
  have s0: "launch b [(a, ev)] = mk b False [] L580"
    by (simp add: launch_def new_task_def mk_def)
  have s1: "step e 0 (mk b False [] L580) = mk b1 False [] (L581 reserved)"
    by (simp add: step_def set_pc_def mk_def r)
  have s2: "step e 0 (mk b1 False [] (L581 reserved)) = mk b1 True [] (L582 reserved)"
    by (simp add: step_def set_pc_def mk_def)
  have s3: "step e 0 (mk b1 True [] (L582 reserved)) = mk bm True [(0, mid)] (L586 reserved mid)"
    by (simp add: step_def set_pc_def mk_def m)
  have s4: "step e 0 (mk bm True [(0, mid)] (L586 reserved mid))
            = mk b2 True [(0, mid)] (L587 reserved mid)"
    by (simp add: step_def set_pc_def mk_def b2_def)
  have s5: "step e 0 (mk b2 True [(0, mid)] (L587 reserved mid))
            = mk b2 False [(0, mid)] (L588 reserved mid)"
    by (simp add: step_def set_pc_def mk_def)
  have s6: "step e 0 (mk b2 False [(0, mid)] (L588 reserved mid)) = mk b2 False [(0, mid)] p"
    by (simp add: step_def set_pc_def mk_def p_def xs_def Let_def split: option.splits)
  have six: "replicate (7 + nat (resends a) + k) (0::nat)
             = 0 # 0 # 0 # 0 # 0 # 0 # replicate (Suc (nat (resends a)) + k) 0"
    by (simp add: numeral_eq_Suc)
  have pre: "run e (replicate (7 + nat (resends a) + k) 0) (launch b [(a, ev)])
             = run e (replicate (Suc (nat (resends a)) + k) 0) (mk b2 False [(0, mid)] p)"
    unfolding six s0 run.simps s1 s2 s3 s4 s5 s6 by (rule refl)
  have ss: "send_signal e a ev b
            = (case bytes_of xs of None \<Rightarrow> ((Some ValueError, ev), b2)
               | Some frame \<Rightarrow> send_bytes e frame (resends a) (resend_gap a) ev b2)"
    by (simp add: send_signal_def r nm xs_def)
  show ?thesis
  proof (cases "bytes_of xs")
    case None
    have "run e (replicate (Suc (nat (resends a)) + k) 0) (mk b2 False [(0, mid)] p)
            = mk b2 False [(0, mid)] p"
      by (rule stutter_returned[where r = "Some ValueError"]) (simp_all add: mk_def p_def None)
    then show ?thesis
      unfolding pre ss mid by (simp add: None mk_def p_def)
  next
    case (Some frame)
    define t where "t = \<lparr>t_args = a, t_event = ev, t_pc = L589 frame (nat (resends a))\<rparr>"
    have pf: "p = L589 frame (nat (resends a))" by (simp add: p_def Some)
    have ts: "tasks (mk b2 False [(0, mid)] p) = [t]" by (simp add: mk_def t_def pf)
    have tp: "t_pc t = L589 frame (nat (resends a))" by (simp add: t_def)
    have run6: "run e (replicate (Suc (nat (resends a)) + k) 0) (mk b2 False [(0, mid)] p)
          = (case write_loop e frame (nat (resends a)) (resend_gap a) b2 of
              (None, c1) \<Rightarrow> mk c1 False [(0, mid)] (Returned None)
            | (Some ex, c1) \<Rightarrow> finish 0 ex (mk c1 False [(0, mid)] p))"
      using solo_send_bytes[OF ts tp, of e k]
      by (simp add: mk_def t_def split: prod.splits option.splits)
    obtain res c1 where wl: "write_loop e frame (nat (resends a)) (resend_gap a) b2 = (res, c1)"
      by (cases "write_loop e frame (nat (resends a)) (resend_gap a) b2")
    show ?thesis
    proof (cases res)
      case None
      then show ?thesis
        unfolding pre ss mid run6 by (simp add: Some wl send_bytes_def mk_def)
    next
      case (Some ex)
      then show ?thesis
        unfolding pre ss mid run6
        by (simp add: \<open>bytes_of xs = Some frame\<close> wl send_bytes_def mk_def finish_def
              set_pc_def pf Let_def)
    qed
  qed
qed

section \<open>Checksum formulas\<close>

text \<open>
  C1. For every 7-byte frame the outbound checksum (\<^verbatim>\<open>for_received=False\<close>) is the sum of
  hdr, stn type, sts, rsv byte and message id modulo 256, and the inbound
  checksum (\<^verbatim>\<open>for_received=True\<close>) is that value plus colour minus one, again modulo 256.
  The fields (19,5,0,0,0) give 24, (19,5,10,10,10) give 54, (255,255,255,255,3) give 255
  and (255,255,255,255,4) give 0, whatever the checksum and colour bytes of the input.
\<close>

theorem calc_checksum_formulas:
  "calc_checksum [hdr, stn, sts, rsv, mid, chk, color] False
     = Some ((hdr + stn + sts + rsv + mid) mod 256)
   \<and> calc_checksum [hdr, stn, sts, rsv, mid, chk, color] True
     = Some (((hdr + stn + sts + rsv + mid) mod 256 + (color - 1)) mod 256)
   \<and> calc_checksum [19, 5, 0, 0, 0, chk, color] False = Some 24
   \<and> calc_checksum [19, 5, 10, 10, 10, chk, color] False = Some 54
   \<and> calc_checksum [255, 255, 255, 255, 3, chk, color] False = Some 255
   \<and> calc_checksum [255, 255, 255, 255, 4, chk, color] False = Some 0"
  by (simp add: calc_checksum_def Let_def add_diff_eq)

section \<open>The duplicate filter\<close>

text \<open>
  C2. The duplicate filter passes a frame on exactly when the frame differs, byte for
  byte, from every entry of the window; a frame passed on is appended and entries are
  dropped from the front until at most 12 remain. A payload of 13 copies of one frame
  that the window does not hold leads to exactly one call of the notification callback,
  whatever the callback does. A payload of 13 distinct frames, on an empty window and
  with a callback that returns or raises \<^verbatim>\<open>TypeError\<close>, leads to 13 calls in order, and the
  window then holds the last 12 of them.
\<close>

theorem duplicate_filter:
  "(fst (accept (message_of f) (map message_of fs)) \<longleftrightarrow> f \<notin> set fs)
   \<and> snd (accept s w) = (if s \<in> set w then w else drop (length w - 11) (w @ [s]))
   \<and> (length w \<le> 12 \<longrightarrow> length (snd (accept s w)) \<le> 12)
   \<and> (is_frame f \<and> message_of f \<notin> set (last_notifications b) \<and> noti_callback b = Some cb \<longrightarrow>
        calls (trace (snd (notification_handler (concat (replicate 13 f)) b)))
          = calls (trace b) @ [structured_kwargs (map uint f) (concat (replicate 13 f))]
        \<and> last_notifications (snd (notification_handler (concat (replicate 13 f)) b))
          = snd (accept (message_of f) (last_notifications b)))
   \<and> (length fs = 13 \<and> distinct fs \<and> list_all is_frame fs
        \<and> last_notifications b = [] \<and> noti_callback b = Some cb
        \<and> (\<forall>kw. cb kw = None \<or> cb kw = Some TypeError) \<longrightarrow>
        calls (trace (snd (notification_handler (concat fs) b)))
          = calls (trace b) @ map (\<lambda>f. structured_kwargs (map uint f) (concat fs)) fs
        \<and> last_notifications (snd (notification_handler (concat fs) b)) = map message_of (tl fs))"
proof (intro conjI impI)
  show "fst (accept (message_of f) (map message_of fs)) \<longleftrightarrow> f \<notin> set fs"
    using message_of_mem[of f fs] by (simp add: accept_def del: set_map)
next
  show "snd (accept s w) = (if s \<in> set w then w else drop (length w - 11) (w @ [s]))"
    by (simp add: accept_def pop_excess_eq)
next
  assume "length w \<le> 12"
  then show "length (snd (accept s w)) \<le> 12"
    by (simp add: accept_def length_pop_excess)
next
  assume a: "is_frame f \<and> message_of f \<notin> set (last_notifications b) \<and> noti_callback b = Some cb"
  let ?data = "concat (replicate 13 f)"
  have "finditer (message_of ?data) = map message_of (replicate 13 f)"
    by (rule finditer_frames) (simp add: a list_all_iff)
  moreover have "replicate 13 (message_of f) = message_of f # replicate 12 (message_of f)"
    by (simp add: numeral_eq_Suc)
  ultimately have h: "notification_handler ?data b
      = noti_loop ?data (message_of f # replicate 12 (message_of f)) b"
    by (simp add: notification_handler_def)
  have n: "calls (trace (snd (noti_loop ?data (message_of f # replicate 12 (message_of f)) b)))
           = calls (trace b) @ [structured_kwargs (map uint f) ?data]
       \<and> last_notifications (snd (noti_loop ?data (message_of f # replicate 12 (message_of f)) b))
           = pop_excess (last_notifications b @ [message_of f])"
    using a by (intro noti_loop_identical decode_frame) simp_all
  show "calls (trace (snd (notification_handler ?data b)))
          = calls (trace b) @ [structured_kwargs (map uint f) ?data]"
    using n by (simp only: h)
  show "last_notifications (snd (notification_handler ?data b))
          = snd (accept (message_of f) (last_notifications b))"
    using n a by (simp add: h accept_def)
next
  assume a: "length fs = 13 \<and> distinct fs \<and> list_all is_frame fs
        \<and> last_notifications b = [] \<and> noti_callback b = Some cb
        \<and> (\<forall>kw. cb kw = None \<or> cb kw = Some TypeError)"
  let ?data = "concat fs"
  have ne: "fs \<noteq> []" using a by auto
  have fi: "finditer (message_of ?data) = map message_of fs"
    by (rule finditer_frames) (simp add: a)
  have h: "notification_handler ?data b = noti_loop ?data (map message_of fs) b"
    using ne by (simp add: notification_handler_def fi)
  have dist: "distinct (map message_of fs)"
    using a message_of_inject by (simp add: distinct_map inj_on_def)
  have dec: "\<forall>s\<in>set (map message_of fs). decode_signal s \<noteq> None"
    using a decode_frame by (auto simp: list_all_iff)
  have n: "fst (noti_loop ?data (map message_of fs) b) = None
    \<and> last_notifications (snd (noti_loop ?data (map message_of fs) b))
        = pop_excess (last_notifications b @ map message_of fs)
    \<and> calls (trace (snd (noti_loop ?data (map message_of fs) b)))
        = calls (trace b) @ map (\<lambda>s. structured_kwargs (the (decode_signal s)) ?data) (map message_of fs)"
  proof (rule noti_loop_fresh[OF dist _ dec])
    show "set (map message_of fs) \<inter> set (last_notifications b) = {}" using a by simp
    show "noti_callback b = Some cb" using a by blast
    show "\<forall>kw. cb kw = None \<or> cb kw = Some TypeError" using a by blast
    show "length (last_notifications b) \<le> 12" using a by simp
  qed
  have m: "map (\<lambda>s. structured_kwargs (the (decode_signal s)) ?data) (map message_of fs)
           = map (\<lambda>f. structured_kwargs (map uint f) ?data) fs"
    using a decode_frame by (auto simp: list_all_iff)
  show "calls (trace (snd (notification_handler ?data b)))
          = calls (trace b) @ map (\<lambda>f. structured_kwargs (map uint f) ?data) fs"
    using n m by (simp only: h)
  have "pop_excess (map message_of fs) = map message_of (tl fs)"
    using a by (simp add: pop_excess_eq drop_map drop_Suc)
  then show "last_notifications (snd (notification_handler ?data b)) = map message_of (tl fs)"
    using n a by (simp add: h)
qed

theorem duplicate_filter_witness:
  "length ([] :: string list) \<le> 12 \<and> length (snd (accept ''13'' [])) \<le> 12
   \<and> is_frame [19, 5, 0, 0, 0, 24, 1]
   \<and> message_of [19, 5, 0, 0, 0, 24, 1] \<notin> set (last_notifications listener)
   \<and> calls (trace (snd (notification_handler (concat (replicate 13 [19, 5, 0, 0, 0, 24, 1])) listener)))
       = calls (trace listener)
         @ [structured_kwargs (map uint [19, 5, 0, 0, 0, 24, 1 :: byte])
              (concat (replicate 13 [19, 5, 0, 0, 0, 24, 1]))]
   \<and> length thirteen_frames = 13 \<and> distinct thirteen_frames \<and> list_all is_frame thirteen_frames
   \<and> calls (trace (snd (notification_handler (concat thirteen_frames) listener)))
       = calls (trace listener)
         @ map (\<lambda>f. structured_kwargs (map uint f) (concat thirteen_frames)) thirteen_frames
   \<and> last_notifications (snd (notification_handler (concat thirteen_frames) listener))
       = map message_of (tl thirteen_frames)"
proof -
  have h1: "length thirteen_frames = 13" by (simp add: thirteen_frames_def)
  have h2: "distinct thirteen_frames" by (simp add: thirteen_frames_def)
  have h3: "list_all is_frame thirteen_frames" by (simp add: thirteen_frames_def is_frame_def)
  have h4: "last_notifications listener = []" by (simp add: listener_def init_bridge_def)
  have h5: "noti_callback listener = Some (\<lambda>kw. None)" by (simp add: listener_def init_bridge_def)
  have h6: "is_frame [19, 5, 0, 0, 0, 24, 1]" by (simp add: is_frame_def)
  have h7: "message_of [19, 5, 0, 0, 0, 24, 1] \<notin> set (last_notifications listener)"
    by (simp add: h4)
  show ?thesis
    using duplicate_filter[of "[19, 5, 0, 0, 0, 24, 1]" thirteen_frames "''13''" "[]" listener
        "\<lambda>kw. None"] h1 h2 h3 h4 h5 h6 h7
    by simp
qed

section \<open>Frame extraction\<close>

text \<open>
  C5. The regular expression, run over the hexadecimal text of a payload, finds exactly
  the texts of the frames of \<open>scanFrames\<close>: the non-overlapping 7-byte candidates that
  begin with byte 19, from left to right. When it finds none, the handler calls the
  registered callback once, with every protocol field \<^verbatim>\<open>None\<close> and the payload as
  \<^verbatim>\<open>Data\<close>, and returns what the callback returns.
\<close>

theorem frame_extraction:
  "finditer (message_of data) = map message_of (scanFrames data)
   \<and> (finditer (message_of data) = [] \<and> noti_callback b = Some cb \<longrightarrow>
        notification_handler data b
          = (cb \<lparr>Header = None, Stone = None, Status = None, Reserved = None, MsgId = None,
                 Checksum = None, Color = None, Data = data\<rparr>,
             b\<lparr>trace := trace b @ [NotiCallback \<lparr>Header = None, Stone = None, Status = None,
                 Reserved = None, MsgId = None, Checksum = None, Color = None, Data = data\<rparr>]\<rparr>))"
  by (simp add: finditer_message_of notification_handler_def call_noti_def unstructured_kwargs_def
      emit_def)

theorem frame_extraction_witness:
  "finditer (message_of [1, 2, 3]) = []
   \<and> notification_handler [1, 2, 3] (init_bridge\<lparr>noti_callback := Some (\<lambda>kw. None)\<rparr>)
       = (None, init_bridge\<lparr>noti_callback := Some (\<lambda>kw. None),
            trace := [NotiCallback \<lparr>Header = None, Stone = None, Status = None,
                 Reserved = None, MsgId = None, Checksum = None, Color = None, Data = [1, 2, 3]\<rparr>]\<rparr>)"
  using frame_extraction[of "[1, 2, 3]" "init_bridge\<lparr>noti_callback := Some (\<lambda>kw. None)\<rparr>" "\<lambda>kw. None"]
  by (simp add: init_bridge_def)

section \<open>Checksum mismatch\<close>

text \<open>
  C6. On every payload that holds a frame, with a callback registered, the events of the
  handler are exactly \<open>deliveries\<close>: each candidate frame that passes the duplicate filter
  is handed to the callback, whatever its checksum byte, until a call raises something
  other than \<^verbatim>\<open>TypeError\<close>. With a callback that returns or raises \<^verbatim>\<open>TypeError\<close>, every frame
  that passes the filter and whose checksum byte differs from the inbound checksum of
  its fields is logged and, directly after, delivered with the seven fields as received,
  wherever the frame stands in the payload.
\<close>

theorem checksum_mismatch_delivered:
  "(scanFrames data \<noteq> [] \<and> noti_callback b = Some cb \<longrightarrow>
      trace (snd (notification_handler data b))
        = trace b @ deliveries cb data (last_notifications b) (scanFrames data))
   \<and> (scanFrames data \<noteq> [] \<and> noti_callback b = Some cb
        \<and> (\<forall>kw. cb kw = None \<or> cb kw = Some TypeError)
        \<and> f \<in> set (passed_frames (last_notifications b) (scanFrames data))
        \<and> calc_checksum (map uint f) True \<noteq> Some (uint (f ! 5)) \<longrightarrow>
      (\<exists>pre post. trace (snd (notification_handler data b))
         = trace b @ pre
           @ [Log ''Incoming Notification was discarded because the Checksum was incorrect'',
              NotiCallback \<lparr>Header = Some 19, Stone = Some (uint (f ! 1)),
                Status = Some (uint (f ! 2)), Reserved = Some (uint (f ! 3)),
                MsgId = Some (uint (f ! 4)), Checksum = Some (uint (f ! 5)),
                Color = Some (uint (f ! 6)), Data = data\<rparr>]
           @ post))"
proof (intro conjI impI)
  assume "scanFrames data \<noteq> [] \<and> noti_callback b = Some cb"
  then show "trace (snd (notification_handler data b))
        = trace b @ deliveries cb data (last_notifications b) (scanFrames data)"
    using handler_deliveries by blast
next
  assume h: "scanFrames data \<noteq> [] \<and> noti_callback b = Some cb
        \<and> (\<forall>kw. cb kw = None \<or> cb kw = Some TypeError)
        \<and> f \<in> set (passed_frames (last_notifications b) (scanFrames data))
        \<and> calc_checksum (map uint f) True \<noteq> Some (uint (f ! 5))"
  let ?kw = "\<lparr>Header = Some 19, Stone = Some (uint (f ! 1)),
                Status = Some (uint (f ! 2)), Reserved = Some (uint (f ! 3)),
                MsgId = Some (uint (f ! 4)), Checksum = Some (uint (f ! 5)),
                Color = Some (uint (f ! 6)), Data = data\<rparr>"
  have "f \<in> set (scanFrames data)" using h passed_frames_subset by blast
  then have fr: "is_frame f" by (rule scanFrames_frames)
  then obtain a1 a2 a3 a4 a5 a6 where f: "f = [19, a1, a2, a3, a4, a5, a6]"
    by (auto simp: is_frame_def length_Suc_conv numeral_eq_Suc)
  have kw: "structured_kwargs (map uint f) data = ?kw"
    by (simp add: f structured_kwargs_def)
  obtain xs ys where sp: "passed_frames (last_notifications b) (scanFrames data) = xs @ f # ys"
    using h by (meson split_list)
  have t: "trace (snd (notification_handler data b))
        = trace b @ concat (map (frame_events cb data) (xs @ f # ys))"
    using h handler_deliveries[of data b cb] deliveries_benign[of cb data] sp by simp
  have fe: "\<exists>tl. frame_events cb data f
      = [Log ''Incoming Notification was discarded because the Checksum was incorrect'',
         NotiCallback ?kw] @ tl"
    using h by (simp add: frame_events_def kw)
  then obtain tl where tl: "frame_events cb data f
      = [Log ''Incoming Notification was discarded because the Checksum was incorrect'',
         NotiCallback ?kw] @ tl" by blast
  have "trace (snd (notification_handler data b))
        = trace b @ concat (map (frame_events cb data) xs)
          @ [Log ''Incoming Notification was discarded because the Checksum was incorrect'',
             NotiCallback ?kw]
          @ (tl @ concat (map (frame_events cb data) ys))"
    by (simp add: t tl)
  then show "\<exists>pre post. trace (snd (notification_handler data b))
         = trace b @ pre
           @ [Log ''Incoming Notification was discarded because the Checksum was incorrect'',
              NotiCallback ?kw]
           @ post"
    by blast
qed

theorem checksum_mismatch_delivered_witness:
  "scanFrames noisy_payload = [[19, 5, 0, 0, 0, 99, 1], [19, 5, 0, 0, 1, 25, 1]]
   \<and> noti_callback listener = Some (\<lambda>kw. None)
   \<and> [19, 5, 0, 0, 0, 99, 1] \<in> set (passed_frames (last_notifications listener) (scanFrames noisy_payload))
   \<and> calc_checksum (map uint [19, 5, 0, 0, 0, 99, 1 :: byte]) True
       \<noteq> Some (uint ([19, 5, 0, 0, 0, 99, 1 :: byte] ! 5))
   \<and> trace (snd (notification_handler noisy_payload listener))
       = [Log ''Incoming Notification was discarded because the Checksum was incorrect'',
          NotiCallback \<lparr>Header = Some 19, Stone = Some 5, Status = Some 0, Reserved = Some 0,
            MsgId = Some 0, Checksum = Some 99, Color = Some 1, Data = noisy_payload\<rparr>,
          NotiCallback \<lparr>Header = Some 19, Stone = Some 5, Status = Some 0, Reserved = Some 0,
            MsgId = Some 1, Checksum = Some 25, Color = Some 1, Data = noisy_payload\<rparr>]
   \<and> (\<exists>pre post. trace (snd (notification_handler noisy_payload listener))
         = trace listener @ pre
           @ [Log ''Incoming Notification was discarded because the Checksum was incorrect'',
              NotiCallback \<lparr>Header = Some 19, Stone = Some (uint ([19, 5, 0, 0, 0, 99, 1 :: byte] ! 1)),
                Status = Some (uint ([19, 5, 0, 0, 0, 99, 1 :: byte] ! 2)),
                Reserved = Some (uint ([19, 5, 0, 0, 0, 99, 1 :: byte] ! 3)),
                MsgId = Some (uint ([19, 5, 0, 0, 0, 99, 1 :: byte] ! 4)),
                Checksum = Some (uint ([19, 5, 0, 0, 0, 99, 1 :: byte] ! 5)),
                Color = Some (uint ([19, 5, 0, 0, 0, 99, 1 :: byte] ! 6)), Data = noisy_payload\<rparr>]
           @ post)"
proof -
  have sc: "scanFrames noisy_payload = [[19, 5, 0, 0, 0, 99, 1], [19, 5, 0, 0, 1, 25, 1]]"
    by (simp add: noisy_payload_def)
  have ne: "scanFrames noisy_payload \<noteq> []" by (simp add: sc)
  have cb: "noti_callback listener = Some (\<lambda>kw. None)"
    and w: "last_notifications listener = []" and tr: "trace listener = []"
    by (simp_all add: listener_def init_bridge_def)
  have ben: "\<forall>kw. (\<lambda>kw. None :: exc option) kw = None \<or> (\<lambda>kw. None) kw = Some TypeError"
    by simp
  have mem: "[19, 5, 0, 0, 0, 99, 1] \<in> set (passed_frames (last_notifications listener) (scanFrames noisy_payload))"
    by (simp add: sc w accept_def)
  have mis: "calc_checksum (map uint [19, 5, 0, 0, 0, 99, 1 :: byte]) True
       \<noteq> Some (uint ([19, 5, 0, 0, 0, 99, 1 :: byte] ! 5))"
    by (simp add: calc_checksum_def)
  note T = checksum_mismatch_delivered[of noisy_payload listener "\<lambda>kw. None" "[19, 5, 0, 0, 0, 99, 1]"]
  have t1: "trace (snd (notification_handler noisy_payload listener))
        = trace listener @ deliveries (\<lambda>kw. None) noisy_payload (last_notifications listener)
            (scanFrames noisy_payload)"
    using T ne cb by blast
  have d: "deliveries (\<lambda>kw. None) noisy_payload [] [[19, 5, 0, 0, 0, 99, 1], [19, 5, 0, 0, 1, 25, 1]]
        = [Log ''Incoming Notification was discarded because the Checksum was incorrect'',
          NotiCallback \<lparr>Header = Some 19, Stone = Some 5, Status = Some 0, Reserved = Some 0,
            MsgId = Some 0, Checksum = Some 99, Color = Some 1, Data = noisy_payload\<rparr>,
          NotiCallback \<lparr>Header = Some 19, Stone = Some 5, Status = Some 0, Reserved = Some 0,
            MsgId = Some 1, Checksum = Some 25, Color = Some 1, Data = noisy_payload\<rparr>]"
    by (simp add: accept_def pop_excess_short message_of_eq_iff frame_events_def
        calc_checksum_def structured_kwargs_def)
  have t2: "trace (snd (notification_handler noisy_payload listener))
       = [Log ''Incoming Notification was discarded because the Checksum was incorrect'',
          NotiCallback \<lparr>Header = Some 19, Stone = Some 5, Status = Some 0, Reserved = Some 0,
            MsgId = Some 0, Checksum = Some 99, Color = Some 1, Data = noisy_payload\<rparr>,
          NotiCallback \<lparr>Header = Some 19, Stone = Some 5, Status = Some 0, Reserved = Some 0,
            MsgId = Some 1, Checksum = Some 25, Color = Some 1, Data = noisy_payload\<rparr>]"
    using t1 d by (simp only: sc w tr append_Nil)
  have t3: "\<exists>pre post. trace (snd (notification_handler noisy_payload listener))
         = trace listener @ pre
           @ [Log ''Incoming Notification was discarded because the Checksum was incorrect'',
              NotiCallback \<lparr>Header = Some 19, Stone = Some (uint ([19, 5, 0, 0, 0, 99, 1 :: byte] ! 1)),
                Status = Some (uint ([19, 5, 0, 0, 0, 99, 1 :: byte] ! 2)),
                Reserved = Some (uint ([19, 5, 0, 0, 0, 99, 1 :: byte] ! 3)),
                MsgId = Some (uint ([19, 5, 0, 0, 0, 99, 1 :: byte] ! 4)),
                Checksum = Some (uint ([19, 5, 0, 0, 0, 99, 1 :: byte] ! 5)),
                Color = Some (uint ([19, 5, 0, 0, 0, 99, 1 :: byte] ! 6)), Data = noisy_payload\<rparr>]
           @ post"
    using T ne cb ben mem mis by blast
  show ?thesis using sc cb mem mis t2 t3 by blast
qed

section \<open>Message ids\<close>



section \<open>Periodic sending\<close>

text \<open>
  C7. \<^verbatim>\<open>send_periodic\<close> with \<^verbatim>\<open>stop_on_failure=True\<close>. At any iteration of its loop that
  finds the shared error event set, the loop returns and does nothing more. On a
  connected Bridge, with arguments in byte range and at least one write per signal: if
  the first \<open>k\<close> signals are written in full and a write of signal \<open>k + 1\<close> raises an
  exception that \<^verbatim>\<open>send_bytes\<close> catches, a batch of any count above \<open>k\<close> ends exactly as
  the batch of count \<open>k + 1\<close> does: \<open>k + 1\<close> message ids are used, the writes are those
  up to the failing one, no exception leaves the call, and the first event of the batch
  is a write, not a sleep. On a Bridge without a client the first signal reports the
  failure, and a batch of any count ends as the batch of count 1 does, with no write.
\<close>

theorem send_periodic_stop_on_failure:
  "periodic_loop e a gap True i n True b = (None, b)
   \<and> (client b = Some c \<and> 0 \<le> next_send_id b \<and> next_send_id b < 256
        \<and> 0 \<le> sts \<and> sts < 256 \<and> 0 \<le> col \<and> col < 256 \<and> 0 \<le> stn \<and> stn < 256
        \<and> 0 < rs \<and> int k < count \<and> j < nat rs
        \<and> (\<forall>x < k * nat rs + j. write_gatt_char e (n_writes b + x) = None)
        \<and> write_gatt_char e (n_writes b + k * nat rs + j) = Some ex \<and> caught_on_send ex
      \<longrightarrow> send_periodic e sts col count gap rs rgap stn True b
            = send_periodic e sts col (int k + 1) gap rs rgap stn True b
        \<and> fst (send_periodic e sts col count gap rs rgap stn True b) = None
        \<and> next_send_id (snd (send_periodic e sts col count gap rs rgap stn True b))
            = (next_send_id b + int k + 1) mod 256
        \<and> n_writes (snd (send_periodic e sts col count gap rs rgap stn True b))
            = n_writes b + k * nat rs + j + 1
        \<and> (\<exists>frame rest. trace (snd (send_periodic e sts col count gap rs rgap stn True b))
                           = trace b @ Write frame # rest))
   \<and> (client b = None \<and> 0 \<le> next_send_id b \<and> next_send_id b < 256
        \<and> 0 \<le> sts \<and> sts < 256 \<and> 0 \<le> col \<and> col < 256 \<and> 0 \<le> stn \<and> stn < 256
        \<and> 0 < rs \<and> 1 \<le> count
      \<longrightarrow> send_periodic e sts col count gap rs rgap stn True b
            = send_periodic e sts col 1 gap rs rgap stn True b
        \<and> fst (send_periodic e sts col count gap rs rgap stn True b) = None
        \<and> next_send_id (snd (send_periodic e sts col count gap rs rgap stn True b))
            = (next_send_id b + 1) mod 256
        \<and> n_writes (snd (send_periodic e sts col count gap rs rgap stn True b)) = n_writes b)"
proof (intro conjI impI)
  show "periodic_loop e a gap True i n True b = (None, b)" by (rule periodic_loop_stopped)
next
  let ?a = "\<lparr>status = sts, color_channel = col, resends = rs, resend_gap = rgap,
             random_id = False, header = 19, stone = stn\<rparr>"
  assume h: "client b = Some c \<and> 0 \<le> next_send_id b \<and> next_send_id b < 256
        \<and> 0 \<le> sts \<and> sts < 256 \<and> 0 \<le> col \<and> col < 256 \<and> 0 \<le> stn \<and> stn < 256
        \<and> 0 < rs \<and> int k < count \<and> j < nat rs
        \<and> (\<forall>x < k * nat rs + j. write_gatt_char e (n_writes b + x) = None)
        \<and> write_gatt_char e (n_writes b + k * nat rs + j) = Some ex \<and> caught_on_send ex"
  have v: "valid_args ?a" using h by (simp add: valid_args_def)
  obtain m where m: "nat count = Suc (k + m)"
  proof -
    have "Suc k \<le> nat count" using h by linarith
    then obtain d where "nat count = Suc k + d" by (auto simp: le_iff_add)
    then show ?thesis using that by simp
  qed
  have one: "nat (int k + 1) = Suc (k + 0)" by simp
  obtain b2 where L: "\<forall>m. periodic_loop e ?a gap True 0 (Suc (k + m)) False b = (None, b2)"
    and i2: "next_send_id b2 = (next_send_id b + int k + 1) mod 256"
    and n2: "n_writes b2 = n_writes b + k * nat rs + j + 1"
    using periodic_fail_at[of b c ?a k j e ex gap 0] h v by auto
  have r1: "send_periodic e sts col count gap rs rgap stn True b = (None, b2)"
    using L by (simp add: send_periodic_def m del: periodic_loop.simps)
  have r2: "send_periodic e sts col (int k + 1) gap rs rgap stn True b = (None, b2)"
    using L unfolding send_periodic_def one by blast
  obtain frame rest where
    "trace (snd (periodic_loop e ?a gap True 0 (Suc (k + m)) False b)) = trace b @ Write frame # rest"
    using periodic_first[of b c ?a e gap True "k + m"] h v by auto
  then have t: "\<exists>frame rest. trace b2 = trace b @ Write frame # rest" using L by auto
  show "send_periodic e sts col count gap rs rgap stn True b
            = send_periodic e sts col (int k + 1) gap rs rgap stn True b"
    by (simp only: r1 r2)
  show "fst (send_periodic e sts col count gap rs rgap stn True b) = None" by (simp add: r1)
  show "next_send_id (snd (send_periodic e sts col count gap rs rgap stn True b))
            = (next_send_id b + int k + 1) mod 256" by (simp add: r1 i2)
  show "n_writes (snd (send_periodic e sts col count gap rs rgap stn True b))
            = n_writes b + k * nat rs + j + 1" by (simp add: r1 n2)
  show "\<exists>frame rest. trace (snd (send_periodic e sts col count gap rs rgap stn True b))
                           = trace b @ Write frame # rest" using t by (simp add: r1)
next
  let ?a = "\<lparr>status = sts, color_channel = col, resends = rs, resend_gap = rgap,
             random_id = False, header = 19, stone = stn\<rparr>"
  assume h: "client b = None \<and> 0 \<le> next_send_id b \<and> next_send_id b < 256
        \<and> 0 \<le> sts \<and> sts < 256 \<and> 0 \<le> col \<and> col < 256 \<and> 0 \<le> stn \<and> stn < 256
        \<and> 0 < rs \<and> 1 \<le> count"
  have v: "valid_args ?a" using h by (simp add: valid_args_def)
  obtain m where m: "nat count = Suc m"
  proof -
    have "Suc 0 \<le> nat count" using h by linarith
    then obtain d where "nat count = Suc 0 + d" by (auto simp: le_iff_add)
    then show ?thesis using that by simp
  qed
  have one: "nat 1 = Suc 0" by simp
  obtain b2 where L: "\<forall>m. periodic_loop e ?a gap True 0 (Suc m) False b = (None, b2)"
    and i2: "next_send_id b2 = (next_send_id b + 1) mod 256"
    and n2: "n_writes b2 = n_writes b"
    using periodic_noclient[of ?a b e gap] h v by auto
  have r1: "send_periodic e sts col count gap rs rgap stn True b = (None, b2)"
    using L by (simp add: send_periodic_def m del: periodic_loop.simps)
  have r2: "send_periodic e sts col 1 gap rs rgap stn True b = (None, b2)"
    using L unfolding send_periodic_def one by blast
  show "send_periodic e sts col count gap rs rgap stn True b
            = send_periodic e sts col 1 gap rs rgap stn True b"
    by (simp only: r1 r2)
  show "fst (send_periodic e sts col count gap rs rgap stn True b) = None" by (simp add: r1)
  show "next_send_id (snd (send_periodic e sts col count gap rs rgap stn True b))
            = (next_send_id b + 1) mod 256" by (simp add: r1 i2)
  show "n_writes (snd (send_periodic e sts col count gap rs rgap stn True b)) = n_writes b"
    by (simp add: r1 n2)
qed


theorem send_periodic_stop_on_failure_witness:
  "send_periodic failing_env 0 1 5 (1 / 2) 12 0 6 True connected_bridge
     = send_periodic failing_env 0 1 (int 1 + 1) (1 / 2) 12 0 6 True connected_bridge
   \<and> fst (send_periodic failing_env 0 1 5 (1 / 2) 12 0 6 True connected_bridge) = None
   \<and> next_send_id (snd (send_periodic failing_env 0 1 5 (1 / 2) 12 0 6 True connected_bridge)) = 2
   \<and> n_writes (snd (send_periodic failing_env 0 1 5 (1 / 2) 12 0 6 True connected_bridge)) = 16
   \<and> (\<exists>frame rest. trace (snd (send_periodic failing_env 0 1 5 (1 / 2) 12 0 6 True connected_bridge))
                      = Write frame # rest)
   \<and> client init_bridge = None
   \<and> send_periodic failing_env 0 1 5 (1 / 2) 12 0 6 True init_bridge
     = send_periodic failing_env 0 1 1 (1 / 2) 12 0 6 True init_bridge
   \<and> next_send_id (snd (send_periodic failing_env 0 1 5 (1 / 2) 12 0 6 True init_bridge)) = 1
   \<and> n_writes (snd (send_periodic failing_env 0 1 5 (1 / 2) 12 0 6 True init_bridge)) = 0"
proof -
  have b: "client connected_bridge = Some (BleakClient the_device)"
    "next_send_id connected_bridge = 0" "n_writes connected_bridge = 0"
    "trace connected_bridge = []"
    by (simp_all add: connected_bridge_def init_bridge_def)
  have i: "client init_bridge = None" "next_send_id init_bridge = 0" "n_writes init_bridge = 0"
    by (simp_all add: init_bridge_def)
  have w1: "\<forall>x < 1 * nat 12 + 3. write_gatt_char failing_env (n_writes connected_bridge + x) = None"
    by (simp add: failing_env_def b)
  have w3: "write_gatt_char failing_env (n_writes connected_bridge + 1 * nat 12 + 3) = Some BleakError"
    by (simp add: failing_env_def b)
  have c: "caught_on_send BleakError" by (simp add: caught_on_send_def is_BleakError_def)
  have A: "send_periodic failing_env 0 1 5 (1 / 2) 12 0 6 True connected_bridge
            = send_periodic failing_env 0 1 (int 1 + 1) (1 / 2) 12 0 6 True connected_bridge
        \<and> fst (send_periodic failing_env 0 1 5 (1 / 2) 12 0 6 True connected_bridge) = None
        \<and> next_send_id (snd (send_periodic failing_env 0 1 5 (1 / 2) 12 0 6 True connected_bridge))
            = (next_send_id connected_bridge + int 1 + 1) mod 256
        \<and> n_writes (snd (send_periodic failing_env 0 1 5 (1 / 2) 12 0 6 True connected_bridge))
            = n_writes connected_bridge + 1 * nat 12 + 3 + 1
        \<and> (\<exists>frame rest. trace (snd (send_periodic failing_env 0 1 5 (1 / 2) 12 0 6 True connected_bridge))
                           = trace connected_bridge @ Write frame # rest)"
    by (rule send_periodic_stop_on_failure[where c = "BleakClient the_device" and j = 3
          and ex = BleakError and k = 1, THEN conjunct2, THEN conjunct1, THEN mp])
       (simp add: b(1,2,3) c failing_env_def)
  have B: "send_periodic failing_env 0 1 5 (1 / 2) 12 0 6 True init_bridge
            = send_periodic failing_env 0 1 1 (1 / 2) 12 0 6 True init_bridge
        \<and> fst (send_periodic failing_env 0 1 5 (1 / 2) 12 0 6 True init_bridge) = None
        \<and> next_send_id (snd (send_periodic failing_env 0 1 5 (1 / 2) 12 0 6 True init_bridge))
            = (next_send_id init_bridge + 1) mod 256
        \<and> n_writes (snd (send_periodic failing_env 0 1 5 (1 / 2) 12 0 6 True init_bridge))
            = n_writes init_bridge"
    by (rule send_periodic_stop_on_failure[THEN conjunct2, THEN conjunct2, THEN mp])
       (simp add: i(1,2,3))
  have A0: "send_periodic failing_env 0 1 5 (1 / 2) 12 0 6 True connected_bridge
            = send_periodic failing_env 0 1 (int 1 + 1) (1 / 2) 12 0 6 True connected_bridge"
    and A1: "fst (send_periodic failing_env 0 1 5 (1 / 2) 12 0 6 True connected_bridge) = None"
    using A by blast+
  have "next_send_id (snd (send_periodic failing_env 0 1 5 (1 / 2) 12 0 6 True connected_bridge))
            = (next_send_id connected_bridge + int 1 + 1) mod 256"
    using A by blast
  then have A2: "next_send_id (snd (send_periodic failing_env 0 1 5 (1 / 2) 12 0 6 True connected_bridge)) = 2"
    by (simp add: b)
  have "n_writes (snd (send_periodic failing_env 0 1 5 (1 / 2) 12 0 6 True connected_bridge))
            = n_writes connected_bridge + 1 * nat 12 + 3 + 1"
    using A by blast
  then have A3: "n_writes (snd (send_periodic failing_env 0 1 5 (1 / 2) 12 0 6 True connected_bridge)) = 16"
    by (simp add: b)
  have "\<exists>frame rest. trace (snd (send_periodic failing_env 0 1 5 (1 / 2) 12 0 6 True connected_bridge))
                           = trace connected_bridge @ Write frame # rest"
    using A by blast
  then have A4: "\<exists>frame rest. trace (snd (send_periodic failing_env 0 1 5 (1 / 2) 12 0 6 True connected_bridge))
                      = Write frame # rest"
    by (simp add: b)
  have B0: "send_periodic failing_env 0 1 5 (1 / 2) 12 0 6 True init_bridge
            = send_periodic failing_env 0 1 1 (1 / 2) 12 0 6 True init_bridge"
    using B by blast
  have "next_send_id (snd (send_periodic failing_env 0 1 5 (1 / 2) 12 0 6 True init_bridge))
            = (next_send_id init_bridge + 1) mod 256"
    using B by blast
  then have B1: "next_send_id (snd (send_periodic failing_env 0 1 5 (1 / 2) 12 0 6 True init_bridge)) = 1"
    by (simp add: i)
  have "n_writes (snd (send_periodic failing_env 0 1 5 (1 / 2) 12 0 6 True init_bridge))
            = n_writes init_bridge"
    using B by blast
  then have B2: "n_writes (snd (send_periodic failing_env 0 1 5 (1 / 2) 12 0 6 True init_bridge)) = 0"
    by (simp add: i)
  show ?thesis using A0 A1 A2 A3 A4 B0 B1 B2 i(1) by blast
qed

section \<open>Connect on a connected Session\<close>

text \<open>
  C4, as amended. \<^verbatim>\<open>connect\<close> does not look at the state of the Session: its result and
  the operations it performs (scan, new client, connection attempt, identity read) are
  the same from any two states, connected or not. When the scan finds a device and the
  arguments pass the type checks, the Session's client is replaced by a new client for
  that device and a connection attempt on it is started.
\<close>

theorem connect_ignores_state:
  "fst (connect e name_or_addr by_name timeout dc_cb try_rec restart b)
     = fst (connect e name_or_addr by_name timeout dc_cb try_rec restart b')
   \<and> drop (length (trace b)) (trace (snd (connect e name_or_addr by_name timeout dc_cb try_rec restart b)))
     = drop (length (trace b')) (trace (snd (connect e name_or_addr by_name timeout dc_cb try_rec restart b')))
   \<and> (find_device e = Found d \<longrightarrow>
        client (snd (connect e (Arg ident) by_name (Arg t) (Arg cb) try_rec restart b))
           = Some (BleakClient d)
        \<and> ClientConnect (dev_address d)
           \<in> set (drop (length (trace b))
                  (trace (snd (connect e (Arg ident) by_name (Arg t) (Arg cb) try_rec restart b)))))"
  using connect_same_everywhere[of e name_or_addr by_name timeout dc_cb try_rec restart b b']
    connect_found[of e d ident by_name t cb try_rec restart b]
  by blast

theorem connect_ignores_state_witness:
  "find_device found_env = Found the_device
   \<and> client connected_bridge = Some (BleakClient the_device)
   \<and> fst (connect found_env (Arg ''GravitraxConnect'') True (Arg 25) (Arg None) False True connected_bridge)
      = fst (connect found_env (Arg ''GravitraxConnect'') True (Arg 25) (Arg None) False True init_bridge)
   \<and> client (snd (connect found_env (Arg ''GravitraxConnect'') True (Arg 25) (Arg None) False True
                   connected_bridge)) = Some (BleakClient the_device)
   \<and> ClientConnect (dev_address the_device)
       \<in> set (drop (length (trace connected_bridge))
              (trace (snd (connect found_env (Arg ''GravitraxConnect'') True (Arg 25) (Arg None) False
                       True connected_bridge))))"
proof -
  have f: "find_device found_env = Found the_device" by (simp add: found_env_def)
  have c: "client connected_bridge = Some (BleakClient the_device)"
    by (simp add: connected_bridge_def init_bridge_def)
  show ?thesis
    using connect_ignores_state[of found_env "Arg ''GravitraxConnect''" True "Arg 25" "Arg None"
        False True connected_bridge init_bridge the_device "''GravitraxConnect''" 25 None] f c
    by blast
qed




text \<open>
  The claim as first stated, that a second \<^verbatim>\<open>connect\<close> on a connected Session fails
  at once and starts no connection attempt, fails here: on a Bridge that holds a client,
  with a transport that finds the device, \<^verbatim>\<open>connect\<close> returns \<^verbatim>\<open>True\<close> after a scan and a
  connection attempt.
\<close>

theorem connect_while_connected_counterexample:
  "client connected_bridge = Some (BleakClient the_device)
   \<and> fst (connect found_env (Arg ''GravitraxConnect'') True (Arg 25) (Arg None) False True
            connected_bridge) = Inr (Some True)
   \<and> trace (snd (connect found_env (Arg ''GravitraxConnect'') True (Arg 25) (Arg None) False True
            connected_bridge))
      = [FindDevice True ''GravitraxConnect'', Log ''Connecting to'',
         ClientConnect ''C0:FF:EE:00:00:01'', Log ''Connected to bridge'', ReadChar,
         Log ''Firmware Version, Hardware Version'']"
  by (simp add: connect_def found_env_def quiet_env_def connected_bridge_def init_bridge_def
      the_device_def emit_def request_bridge_info_def read_chraceristic_def Let_def)

section \<open>Exceptions of user callbacks\<close>

text \<open>
  C8, as amended. A \<^verbatim>\<open>TypeError\<close> raised by the notification callback on the structured
  path, or by the disconnect callback in \<^verbatim>\<open>__disconnect_callback\<close>, is caught and logged
  and does not leave the dispatch: the handler returns normally on every payload that
  holds a frame when the callback (or its absence) raises nothing but \<^verbatim>\<open>TypeError\<close>, and
  so does the disconnect dispatch; in both the failure is logged.
\<close>

theorem callback_TypeError_caught:
  "(scanFrames data \<noteq> []
      \<and> (\<forall>cb. noti_callback b = Some cb \<longrightarrow> (\<forall>kw. cb kw = None \<or> cb kw = Some TypeError))
      \<longrightarrow> fst (notification_handler data b) = None)
   \<and> (is_frame data \<and> message_of data \<notin> set (last_notifications b) \<and> noti_callback b = Some cb
      \<and> cb (structured_kwargs (map uint data) data) = Some TypeError
      \<longrightarrow> last (trace (snd (notification_handler data b)))
            = Log ''Failed to call notification callback'')
   \<and> ((\<forall>f. dc_callback b = Some f \<longrightarrow>
           f (user_disconnected b) False = None \<or> f (user_disconnected b) False = Some TypeError)
      \<longrightarrow> (\<exists>r. fst (disconnect_callback cl b) = Inr r))
   \<and> (dc_callback b = Some f \<and> f (user_disconnected b) False = Some TypeError
      \<longrightarrow> Log ''Failed to call Disconnect Callback'' \<in> set (trace (snd (disconnect_callback cl b))))"
proof (intro conjI impI)
  assume a: "scanFrames data \<noteq> []
      \<and> (\<forall>cb. noti_callback b = Some cb \<longrightarrow> (\<forall>kw. cb kw = None \<or> cb kw = Some TypeError))"
  then have ne: "finditer (message_of data) \<noteq> []" by (simp add: finditer_message_of)
  have "fst (noti_loop data (finditer (message_of data)) b) = None"
    using a finditer_decodable by (intro noti_loop_TypeError) blast+
  then show "fst (notification_handler data b) = None"
    using ne by (simp add: notification_handler_def)
next
  assume a: "is_frame data \<and> message_of data \<notin> set (last_notifications b) \<and> noti_callback b = Some cb
      \<and> cb (structured_kwargs (map uint data) data) = Some TypeError"
  have sc: "finditer (message_of data) = [message_of data]"
    using finditer_frames[of "[data]"] a by simp
  have dec: "decode_signal (message_of data) = Some (map uint data)"
    using a by (simp add: decode_frame)
  have "notification_handler data b = noti_loop data [message_of data] b"
    by (simp add: notification_handler_def sc)
  also have "\<dots> = (None, emit (Log ''Failed to call notification callback'')
                         (after_call (message_of data) (map uint data) data b))"
    using a by (simp add: noti_loop_fresh_step[OF _ dec, of b cb])
  finally show "last (trace (snd (notification_handler data b)))
            = Log ''Failed to call notification callback''"
    by (simp add: emit_def)
next
  assume "\<forall>f. dc_callback b = Some f \<longrightarrow>
           f (user_disconnected b) False = None \<or> f (user_disconnected b) False = Some TypeError"
  then show "\<exists>r. fst (disconnect_callback cl b) = Inr r"
    by (cases cl)
       (auto simp: disconnect_callback_def call_dc_def emit_def Let_def split: option.splits)
next
  assume "dc_callback b = Some f \<and> f (user_disconnected b) False = Some TypeError"
  then show "Log ''Failed to call Disconnect Callback'' \<in> set (trace (snd (disconnect_callback cl b)))"
    by (cases cl) (auto simp: disconnect_callback_def call_dc_def emit_def Let_def)
qed

theorem callback_TypeError_caught_witness:
  "scanFrames [19, 5, 0, 0, 0, 24, 1] \<noteq> []
   \<and> fst (notification_handler [19, 5, 0, 0, 0, 24, 1] typeerror_listener) = None
   \<and> is_frame [19, 5, 0, 0, 0, 24, 1]
   \<and> last (trace (snd (notification_handler [19, 5, 0, 0, 0, 24, 1] typeerror_listener)))
       = Log ''Failed to call notification callback''
   \<and> (\<exists>r. fst (disconnect_callback (BleakClient the_device) typeerror_listener) = Inr r)
   \<and> Log ''Failed to call Disconnect Callback''
       \<in> set (trace (snd (disconnect_callback (BleakClient the_device) typeerror_listener)))"
proof -
  have h1: "scanFrames [19, 5, 0, 0, 0, 24, 1] \<noteq> []" by simp
  have h2: "noti_callback typeerror_listener = Some (\<lambda>kw. Some TypeError)"
    "dc_callback typeerror_listener = Some (\<lambda>u t. Some TypeError)"
    "last_notifications typeerror_listener = []"
    by (simp_all add: typeerror_listener_def init_bridge_def)
  have h3: "is_frame [19, 5, 0, 0, 0, 24, 1]" by (simp add: is_frame_def)
  show ?thesis
    using callback_TypeError_caught[of "[19, 5, 0, 0, 0, 24, 1]" typeerror_listener
        "\<lambda>kw. Some TypeError" "BleakClient the_device" "\<lambda>u t. Some TypeError"] h1 h3
    by (simp add: h2)
qed


text \<open>
  The claim as first stated, for every exception type, fails here: a \<^verbatim>\<open>ValueError\<close>
  raised by the notification callback on a structured signal leaves the handler, and
  one raised by the disconnect callback leaves \<^verbatim>\<open>__disconnect_callback\<close>.
\<close>

theorem callback_exception_counterexample:
  "fst (notification_handler [19, 5, 0, 0, 0, 24, 1] raising_listener) = Some ValueError
   \<and> fst (disconnect_callback (BleakClient the_device) raising_listener) = Inl ValueError"
proof -
  have fr: "list_all is_frame [[19, 5, 0, 0, 0, 24, 1]]" by (simp add: is_frame_def)
  have sc: "finditer (message_of [19, 5, 0, 0, 0, 24, 1]) = [message_of [19, 5, 0, 0, 0, 24, 1]]"
    using finditer_frames[OF fr] by simp
  have dec: "decode_signal (message_of [19, 5, 0, 0, 0, 24, 1]) = Some (map uint [19, 5, 0, 0, 0, 24, 1 :: byte])"
    by (rule decode_frame) (simp add: is_frame_def)
  have fresh: "message_of [19, 5, 0, 0, 0, 24, 1] \<notin> set (last_notifications raising_listener)"
    by (simp add: raising_listener_def init_bridge_def)
  have cb: "noti_callback raising_listener = Some (\<lambda>kw. Some ValueError)"
    by (simp add: raising_listener_def init_bridge_def)
  have "fst (notification_handler [19, 5, 0, 0, 0, 24, 1] raising_listener) = Some ValueError"
    by (simp add: notification_handler_def sc noti_loop_fresh_step[OF fresh dec cb])
  moreover have "fst (disconnect_callback (BleakClient the_device) raising_listener) = Inl ValueError"
    by (simp add: disconnect_callback_def call_dc_def raising_listener_def init_bridge_def emit_def)
  ultimately show ?thesis by blast
qed

section \<open>A failed reconnect\<close>

text \<open>
  C9. The claim is that a failed automatic reconnect is reported by one call of the
  disconnect callback with \<^verbatim>\<open>by_timeout=True\<close>. The code does not do so: \<^verbatim>\<open>__reconnect\<close>
  calls \<^verbatim>\<open>connect\<close> without \<^verbatim>\<open>dc_callback\<close>, and \<^verbatim>\<open>connect\<close> stores this default \<^verbatim>\<open>None\<close>
  as the Session's callback before its first \<^verbatim>\<open>await\<close>. No run of \<^verbatim>\<open>__reconnect\<close> calls the
  callback with \<^verbatim>\<open>by_timeout=True\<close>. After a lost connection on a Bridge with a callback
  and \<^verbatim>\<open>try_reconnect\<close>, a reconnect that times out in the scan logs the timeout and
  calls nothing; one whose connection attempt ends in \<^verbatim>\<open>BleakDeviceNotFoundError\<close> logs
  ``Reconnected to Bridge''.
\<close>

theorem reconnect_failure_not_reported:
  "DcCallback u True \<notin> set (drop (length (trace b)) (trace (snd (reconnect e addr b))))
   \<and> trace (snd (connection_lost timeout_env (BleakClient the_device) watched_bridge))
       = [Log ''Bridge disconnected'', DcCallback False False, Log ''Trying to reconnect'',
          FindDevice False ''C0:FF:EE:00:00:01'',
          Log ''Could not reconnect to Bridge: Reconnect timed out'']
   \<and> trace (snd (connection_lost refused_env (BleakClient the_device) watched_bridge))
       = [Log ''Bridge disconnected'', DcCallback False False, Log ''Trying to reconnect'',
          FindDevice False ''C0:FF:EE:00:00:01'', Log ''Connecting to'',
          ClientConnect ''C0:FF:EE:00:00:01'', Log ''Reconnected to Bridge'']"
proof (intro conjI)
  obtain evs where "trace (snd (reconnect e addr b)) = trace b @ evs" "DcCallback u True \<notin> set evs"
    using reconnect_events[of e addr b u True] by blast
  then show "DcCallback u True \<notin> set (drop (length (trace b)) (trace (snd (reconnect e addr b))))"
    by simp
next
  show "trace (snd (connection_lost timeout_env (BleakClient the_device) watched_bridge))
       = [Log ''Bridge disconnected'', DcCallback False False, Log ''Trying to reconnect'',
          FindDevice False ''C0:FF:EE:00:00:01'',
          Log ''Could not reconnect to Bridge: Reconnect timed out'']"
    by (simp add: connection_lost_def disconnect_callback_def call_dc_def reconnect_def connect_def
        timeout_env_def quiet_env_def watched_bridge_def connected_bridge_def init_bridge_def
        the_device_def emit_def Let_def)
next
  show "trace (snd (connection_lost refused_env (BleakClient the_device) watched_bridge))
       = [Log ''Bridge disconnected'', DcCallback False False, Log ''Trying to reconnect'',
          FindDevice False ''C0:FF:EE:00:00:01'', Log ''Connecting to'',
          ClientConnect ''C0:FF:EE:00:00:01'', Log ''Reconnected to Bridge'']"
    by (simp add: connection_lost_def disconnect_callback_def call_dc_def reconnect_def connect_def
        refused_env_def found_env_def quiet_env_def watched_bridge_def connected_bridge_def
        init_bridge_def the_device_def emit_def Let_def)
qed

section \<open>The counter on random-id sends\<close>

text \<open>
  C10. Every call of \<^verbatim>\<open>send_signal\<close> advances the counter by one modulo 256, whatever
  \<^verbatim>\<open>random_id\<close> is and whatever the call's outcome. A call with a random id between two
  calls without therefore makes their ids counter and counter + 2.
\<close>

theorem counter_advances_every_send:
  "next_send_id (snd (send_signal e a ev b)) = (next_send_id b + 1) mod 256
   \<and> (\<not> random_id a1 \<and> random_id a2 \<and> \<not> random_id a3
        \<and> 0 \<le> next_send_id b \<and> next_send_id b < 256 \<longrightarrow>
       fst (run_sends e [a1, a2, a3] b)
         = [next_send_id b, int (rand e (n_draws b + 2)) mod 255, (next_send_id b + 2) mod 256])"
proof (intro conjI impI)
  show "next_send_id (snd (send_signal e a ev b)) = (next_send_id b + 1) mod 256"
    by (rule send_signal_counter)
next
  assume h: "\<not> random_id a1 \<and> random_id a2 \<and> \<not> random_id a3
        \<and> 0 \<le> next_send_id b \<and> next_send_id b < 256"
  let ?b1 = "snd (send_signal e a1 None b)"
  let ?b2 = "snd (send_signal e a2 None ?b1)"
  have i1: "message_id_of e a1 b = next_send_id b" using h by (simp add: message_id_of_counter)
  have i2: "message_id_of e a2 ?b1 = int (rand e (n_draws b + 2)) mod 255"
    using h by (simp add: message_id_of_random send_signal_draws)
  have "next_send_id ?b2 = ((next_send_id b + 1) mod 256 + 1) mod 256"
    by (simp only: send_signal_counter)
  also have "\<dots> = (next_send_id b + 2) mod 256" by presburger
  finally have i3: "message_id_of e a3 ?b2 = (next_send_id b + 2) mod 256"
    using h by (simp add: message_id_of_counter)
  show "fst (run_sends e [a1, a2, a3] b)
         = [next_send_id b, int (rand e (n_draws b + 2)) mod 255, (next_send_id b + 2) mod 256]"
    by (simp add: split_beta Let_def i1 i2 i3)
qed

theorem counter_advances_every_send_witness:
  "\<not> random_id red_signal \<and> random_id (red_signal\<lparr>random_id := True\<rparr>)
   \<and> fst (run_sends quiet_env [red_signal, red_signal\<lparr>random_id := True\<rparr>, red_signal] init_bridge)
       = [0, 7, 2]"
  using counter_advances_every_send[of quiet_env red_signal None init_bridge red_signal
      "red_signal\<lparr>random_id := True\<rparr>" red_signal]
  by (simp add: red_signal_def init_bridge_def quiet_env_def)

end
